theory Spec2Isabelle
  imports Complex_Main "HOL-Library.Sublist" "HOL-Library.Char_ord" "HOL-Library.List_Lexorder"
begin

section \<open>Dataset splitting utilities of darwin-py (\<open>darwin/dataset/utils.py\<close>)\<close>

text \<open>
  The development embeds the functions of \<open>darwin/dataset/utils.py\<close> that partition an
  annotated image dataset into train, validation and test lists. Python exceptions are
  values of the type \<open>error\<close>; a function that can raise returns \<open>error + 'a\<close>.
\<close>

datatype error =
    AssertionError
  | ValueError
  | IndexError
  | KeyError
  | FileNotFoundError
  | FileExistsError
  | IsADirectoryError
  | ZeroDivisionError
  | TypeError
  | JSONDecodeError

subsection \<open>numpy helpers\<close>

text \<open>
  \<open>arr[keep]\<close> with a boolean array \<open>keep\<close>: the elements of \<open>arr\<close> at the positions where
  \<open>keep\<close> is true. numpy raises \<open>IndexError\<close> when the two lengths differ.
\<close>

definition select :: "'a list \<Rightarrow> bool list \<Rightarrow> 'a list" where
  "select arr keep = map fst (filter snd (zip arr keep))"

definition bool_index :: "'a list \<Rightarrow> bool list \<Rightarrow> error + 'a list" where
  "bool_index arr keep =
     (if length keep \<noteq> length arr then Inl IndexError else Inr (select arr keep))"

text \<open>\<open>arr != a\<close>: the elementwise comparison of an array with a scalar.\<close>

definition neq_mask :: "'a list \<Rightarrow> 'a \<Rightarrow> bool list" where
  "neq_mask arr a = map (\<lambda>x. x \<noteq> a) arr"

subsection \<open>\<open>remove_cross_contamination\<close>\<close>

text \<open>
  The four arrays the loop rebinds, together with the number of values drawn so far from
  numpy's global random generator. The generator is a parameter \<open>heads\<close>: \<open>heads k\<close> is the
  outcome of the test \<open>np.random.rand() > 0.5\<close> at the \<open>k\<close>-th draw.
\<close>

record ('a, 'b) rcc_state =
  X_a :: "'a list"
  X_b :: "'a list"
  y_a :: "'b list"
  y_b :: "'b list"
  draws :: nat

text \<open>
  One iteration of \<open>for a in X_a\<close>. The test \<open>a in X_b\<close> reads the current \<open>X_b\<close>; the
  coin is flipped only when the test succeeds.
\<close>

definition rcc_step :: "(nat \<Rightarrow> bool) \<Rightarrow> 'a \<Rightarrow> ('a, 'b) rcc_state \<Rightarrow> error + ('a, 'b) rcc_state" where
  "rcc_step heads a s =
     (if a \<in> set (X_b s) then
        (if heads (draws s) then
           (let keep_locations = neq_mask (X_a s) a in
            case bool_index (X_a s) keep_locations of
              Inl e \<Rightarrow> Inl e
            | Inr xa \<Rightarrow>
               (case bool_index (y_a s) keep_locations of
                  Inl e \<Rightarrow> Inl e
                | Inr ya \<Rightarrow> Inr (s\<lparr>X_a := xa, y_a := ya, draws := Suc (draws s)\<rparr>)))
         else
           (let keep_locations = neq_mask (X_b s) a in
            case bool_index (X_b s) keep_locations of
              Inl e \<Rightarrow> Inl e
            | Inr xb \<Rightarrow>
               (case bool_index (y_b s) keep_locations of
                  Inl e \<Rightarrow> Inl e
                | Inr yb \<Rightarrow> Inr (s\<lparr>X_b := xb, y_b := yb, draws := Suc (draws s)\<rparr>))))
      else Inr s)"

text \<open>
  The loop iterates over the array \<open>X_a\<close> was bound to on entry: rebinding \<open>X_a\<close> in the
  body does not change the sequence being iterated.
\<close>

fun rcc_loop :: "(nat \<Rightarrow> bool) \<Rightarrow> 'a list \<Rightarrow> ('a, 'b) rcc_state \<Rightarrow> error + ('a, 'b) rcc_state" where
  "rcc_loop heads [] s = Inr s"
| "rcc_loop heads (a # as) s =
     (case rcc_step heads a s of Inl e \<Rightarrow> Inl e | Inr s' \<Rightarrow> rcc_loop heads as s')"

definition remove_cross_contamination ::
  "(nat \<Rightarrow> bool) \<Rightarrow> nat \<Rightarrow> 'a list \<Rightarrow> 'a list \<Rightarrow> 'b list \<Rightarrow> 'b list \<Rightarrow> error + ('a, 'b) rcc_state" where
  "remove_cross_contamination heads n xa xb ya yb =
     rcc_loop heads xa \<lparr>X_a = xa, X_b = xb, y_a = ya, y_b = yb, draws = n\<rparr>"

subsection \<open>\<open>_stratify_samples\<close>\<close>

text \<open>
  \<open>idx_to_classes\<close> is a dictionary from image indices to sets of class names. It is modelled
  as the list of its items in iteration order, each set as the list of its elements in
  iteration order. Class names are compared by numpy when it sorts them, so the label type
  is any linear order.
\<close>

type_synonym 'l idx_to_classes = "(int \<times> 'l list) list"

definition expanded_list :: "'l idx_to_classes \<Rightarrow> (int \<times> 'l) list" where
  "expanded_list idx_to_classes =
     concat (map (\<lambda>(k, v). map (\<lambda>c. (k, c)) v) idx_to_classes)"

text \<open>\<open>np.unique(labels, return_counts=True)\<close>: the sorted distinct labels and their counts.\<close>

definition np_unique :: "'l::linorder list \<Rightarrow> 'l list \<times> nat list" where
  "np_unique labels =
     (let unique_labels = sort (remdups labels)
      in (unique_labels, map (count_list labels) unique_labels))"

text \<open>
  \<open>np.where(labels == l)[0][0]\<close>: the first position of \<open>l\<close>; the second subscript raises
  \<open>IndexError\<close> when \<open>l\<close> does not occur.
\<close>

fun first_index :: "'a list \<Rightarrow> 'a \<Rightarrow> nat option" where
  "first_index [] l = None"
| "first_index (x # xs) l = (if x = l then Some 0 else map_option Suc (first_index xs l))"

text \<open>\<open>np.delete(arr, index)\<close> for an index inside the array.\<close>

definition np_delete :: "'a list \<Rightarrow> nat \<Rightarrow> 'a list" where
  "np_delete arr index = take index arr @ drop (Suc index) arr"

text \<open>
  The loop over \<open>unique_labels[count == 1]\<close>. The state is
  \<open>(single_files, labels, file_indices)\<close>.
\<close>

fun singles_loop ::
  "'l list \<Rightarrow> int list \<times> 'l list \<times> int list \<Rightarrow> error + (int list \<times> 'l list \<times> int list)" where
  "singles_loop [] st = Inr st"
| "singles_loop (l # ls) (single_files, labels, file_indices) =
     (case first_index labels l of
        None \<Rightarrow> Inl IndexError
      | Some index \<Rightarrow>
          singles_loop ls
            (single_files @ [file_indices ! index],
             np_delete labels index,
             np_delete file_indices index))"

text \<open>
  \<open>list(set(X.astype(np.int)))\<close>: the distinct elements. Python leaves the enumeration order
  of a set unspecified; the model lists them in ascending order, and no statement below
  depends on that order.
\<close>

definition list_of_set :: "int list \<Rightarrow> int list" where
  "list_of_set xs = sort (remdups xs)"

text \<open>\<open>int(x)\<close> for a float \<open>x\<close>: truncation towards zero.\<close>

definition py_int :: "real \<Rightarrow> int" where
  "py_int x = (if 0 \<le> x then \<lfloor>x\<rfloor> else \<lceil>x\<rceil>)"

text \<open>
  \<open>sklearn.model_selection.train_test_split(X, y, test_size, random_state, stratify)\<close> is a
  library function and a parameter of the model. It returns
  \<open>(X_train, X_test, y_train, y_test)\<close> or raises. The two \<open>test_size\<close> arguments are
  computed from the percentages in exact arithmetic.
\<close>

type_synonym 'l splitter =
  "int list \<Rightarrow> 'l list \<Rightarrow> real \<Rightarrow> int \<Rightarrow> 'l list \<Rightarrow>
     error + (int list \<times> int list \<times> 'l list \<times> 'l list)"

text \<open>
  The result is the triple of index lists, the third being \<open>None\<close> when
  \<open>test_percentage == 0.0\<close>, together with the number of random draws made so far.
\<close>

definition stratify_samples ::
  "'l::linorder splitter \<Rightarrow> (nat \<Rightarrow> bool) \<Rightarrow> nat \<Rightarrow> 'l idx_to_classes \<Rightarrow> int \<Rightarrow> real \<Rightarrow> real \<Rightarrow>
     error + ((int list \<times> int list \<times> int list option) \<times> nat)" where
  "stratify_samples train_test_split heads n idx_to_classes split_seed test_percentage val_percentage =
     (let expanded = expanded_list idx_to_classes in
      if expanded = [] then Inl ValueError
      else
        let file_indices = map fst expanded;
            labels = map snd expanded;
            (unique_labels, count) = np_unique labels
        in
        case singles_loop (select unique_labels (map (\<lambda>c. c = 1) count))
               ([], labels, file_indices) of
          Inl e \<Rightarrow> Inl e
        | Inr (single_files, labels, file_indices) \<Rightarrow>
            if length file_indices = 0 \<or> length labels = 0 then Inr (([], [], Some []), n)
            else
              case train_test_split file_indices labels
                     (real_of_int (py_int ((val_percentage + test_percentage) * 100)) / 100)
                     split_seed labels of
                Inl e \<Rightarrow> Inl e
              | Inr (x_train, x_tmp, y_train, y_tmp) \<Rightarrow>
                  (case remove_cross_contamination heads n x_train x_tmp y_train y_tmp of
                     Inl e \<Rightarrow> Inl e
                   | Inr s \<Rightarrow>
                       let X_train = X_a s @ single_files;
                           X_tmp = X_b s;
                           y_tmp = y_b s
                       in
                       if test_percentage = 0 then
                         Inr ((list_of_set X_train, list_of_set X_tmp, None), draws s)
                       else if val_percentage + test_percentage = 0 then Inl ZeroDivisionError
                       else
                         case train_test_split X_tmp y_tmp
                                ((test_percentage * 100 / (val_percentage + test_percentage)) / 100)
                                split_seed y_tmp of
                           Inl e \<Rightarrow> Inl e
                         | Inr (x_val, x_test, y_val, y_test) \<Rightarrow>
                             (case remove_cross_contamination heads (draws s)
                                     x_val x_test y_val y_test of
                                Inl e \<Rightarrow> Inl e
                              | Inr s' \<Rightarrow>
                                  Inr ((list_of_set X_train,
                                        list_of_set (X_a s'),
                                        Some (list_of_set (X_b s'))), draws s'))))"

text \<open>
  An image index carries a singleton label when one of its rows in the expanded list has a
  label that occurs exactly once among all rows.
\<close>

definition singleton_images :: "'l idx_to_classes \<Rightarrow> int list" where
  "singleton_images idx_to_classes =
     (let expanded = expanded_list idx_to_classes
      in map fst (filter (\<lambda>p. count_list (map snd expanded) (snd p) = 1) expanded))"

text \<open>The image indices of the rows that are left for \<open>train_test_split\<close>.\<close>

definition repeated_images :: "'l idx_to_classes \<Rightarrow> int list" where
  "repeated_images idx_to_classes =
     (let expanded = expanded_list idx_to_classes
      in map fst (filter (\<lambda>p. count_list (map snd expanded) (snd p) \<noteq> 1) expanded))"

subsection \<open>The file system\<close>

text \<open>
  A path is the list of its components. A node is a directory, a regular text file (the
  list of its lines, each as \<open>open\<close> yields it when iterated) or a symbolic link. The
  \<open>*.json\<close> files of a directory are kept apart from the nodes: \<open>json_files fs p\<close> is what
  \<open>p.glob("*.json")\<close> lists, in listing order, each entry with its stem and with what
  \<open>json.load(f)["annotations"]\<close> gives for it, an exception or the list of annotations.
\<close>

type_synonym path = "string list"

datatype node = Dir | File "string list" | Link path

text \<open>
  An annotation is a JSON object: its keys other than \<open>name\<close>, and its \<open>name\<close> when it has
  one.
\<close>

record annotation =
  keys :: "string list"
  name :: "string option"

record fs =
  nodes :: "path \<rightharpoonup> node"
  json_files :: "path \<Rightarrow> (string \<times> (error + annotation list)) list"

text \<open>\<open>Path.exists\<close> follows a symbolic link: a dangling link does not exist.\<close>

definition path_exists :: "fs \<Rightarrow> path \<Rightarrow> bool" where
  "path_exists s p =
     (case nodes s p of
        None \<Rightarrow> False
      | Some (Link t) \<Rightarrow> nodes s t \<noteq> None
      | Some _ \<Rightarrow> True)"

definition is_dir :: "fs \<Rightarrow> path \<Rightarrow> bool" where
  "is_dir s p =
     (case nodes s p of
        Some Dir \<Rightarrow> True
      | Some (Link t) \<Rightarrow> nodes s t = Some Dir
      | _ \<Rightarrow> False)"

text \<open>
  \<open>Path.mkdir(parents=True, exist_ok=True)\<close> and \<open>os.makedirs(path, exist_ok=True)\<close>: every
  missing directory on the way is created; a component that exists and is not a directory
  raises.
\<close>

fun make_dirs :: "path list \<Rightarrow> fs \<Rightarrow> error + fs" where
  "make_dirs [] s = Inr s"
| "make_dirs (q # qs) s =
     (if is_dir s q then make_dirs qs s
      else if nodes s q \<noteq> None then Inl FileExistsError
      else make_dirs qs (s\<lparr>nodes := (nodes s)(q \<mapsto> Dir)\<rparr>))"

definition makedirs :: "path \<Rightarrow> fs \<Rightarrow> error + fs" where
  "makedirs p s = make_dirs (map (\<lambda>k. take k p) [1..<Suc (length p)]) s"

text \<open>\<open>open(path)\<close> for reading, then iterating over the lines.\<close>

definition read_lines :: "fs \<Rightarrow> path \<Rightarrow> error + string list" where
  "read_lines s p =
     (case nodes s p of
        None \<Rightarrow> Inl FileNotFoundError
      | Some Dir \<Rightarrow> Inl IsADirectoryError
      | Some (File ls) \<Rightarrow> Inr ls
      | Some (Link t) \<Rightarrow>
          (case nodes s t of
             Some (File ls) \<Rightarrow> Inr ls
           | Some Dir \<Rightarrow> Inl IsADirectoryError
           | _ \<Rightarrow> Inl FileNotFoundError))"

text \<open>
  \<open>open(path, "w")\<close>: the path of the regular file that is created or truncated.
\<close>

definition open_w :: "fs \<Rightarrow> path \<Rightarrow> error + path" where
  "open_w s p =
     (case nodes s p of
        Some Dir \<Rightarrow> Inl IsADirectoryError
      | Some (Link t) \<Rightarrow>
          (case nodes s t of
             Some Dir \<Rightarrow> Inl IsADirectoryError
           | Some (Link u) \<Rightarrow> Inl FileNotFoundError
           | _ \<Rightarrow> if is_dir s (butlast t) then Inr t else Inl FileNotFoundError)
      | _ \<Rightarrow> if is_dir s (butlast p) then Inr p else Inl FileNotFoundError)"

text \<open>\<open>Path.unlink\<close> and \<open>Path.symlink_to\<close>.\<close>

definition unlink :: "path \<Rightarrow> fs \<Rightarrow> error + fs" where
  "unlink p s =
     (case nodes s p of
        None \<Rightarrow> Inl FileNotFoundError
      | Some Dir \<Rightarrow> Inl IsADirectoryError
      | Some _ \<Rightarrow> Inr (s\<lparr>nodes := (nodes s)(p := None)\<rparr>))"

definition symlink_to :: "path \<Rightarrow> path \<Rightarrow> fs \<Rightarrow> error + fs" where
  "symlink_to p target s =
     (if nodes s p \<noteq> None then Inl FileExistsError
      else if \<not> is_dir s (butlast p) then Inl FileNotFoundError
      else Inr (s\<lparr>nodes := (nodes s)(p \<mapsto> Link target)\<rparr>))"

text \<open>
  The \<open>dataset\<close> argument is \<open>None\<close>, a path (a \<open>Path\<close> or a \<open>str\<close>), or an object whose
  \<open>local_path\<close> attribute is the path.
\<close>

datatype dataset = PathLike path | RemoteDataset path

fun dataset_path :: "dataset \<Rightarrow> path" where
  "dataset_path (PathLike p) = p"
| "dataset_path (RemoteDataset local_path) = local_path"

subsection \<open>\<open>extract_classes\<close>\<close>

text \<open>
  The two \<open>defaultdict(set)\<close> values are lists of items in insertion order; \<open>d[k].add(v)\<close>
  creates the key when it is missing and adds \<open>v\<close> when the set lacks it.
\<close>

definition dd_add :: "'k \<Rightarrow> 'v \<Rightarrow> ('k \<times> 'v list) list \<Rightarrow> ('k \<times> 'v list) list" where
  "dd_add k v d =
     (if k \<in> fst ` set d
      then map (\<lambda>(k', vs). if k' = k \<and> v \<notin> set vs then (k', vs @ [v]) else (k', vs)) d
      else d @ [(k, [v])])"

definition has_key :: "annotation \<Rightarrow> string \<Rightarrow> bool" where
  "has_key a k \<longleftrightarrow> k \<in> set (keys a) \<or> (k = ''name'' \<and> name a \<noteq> None)"

type_synonym class_maps = "(string \<times> int list) list \<times> (int \<times> string list) list"

fun extract_annotations :: "string \<Rightarrow> int \<Rightarrow> annotation list \<Rightarrow> class_maps \<Rightarrow> error + class_maps" where
  "extract_annotations annotation_type i [] acc = Inr acc"
| "extract_annotations annotation_type i (a # as) (classes, indices_to_classes) =
     (if \<not> has_key a annotation_type
      then extract_annotations annotation_type i as (classes, indices_to_classes)
      else
        case name a of
          None \<Rightarrow> Inl KeyError
        | Some class_name \<Rightarrow>
            extract_annotations annotation_type i as
              (dd_add class_name i classes, dd_add i class_name indices_to_classes))"

fun extract_files ::
  "string \<Rightarrow> int \<Rightarrow> (string \<times> (error + annotation list)) list \<Rightarrow> class_maps \<Rightarrow> error + class_maps" where
  "extract_files annotation_type i [] acc = Inr acc"
| "extract_files annotation_type i ((stem, doc) # fs) acc =
     (case doc of
        Inl e \<Rightarrow> Inl e
      | Inr annotations \<Rightarrow>
          (case extract_annotations annotation_type i annotations acc of
             Inl e \<Rightarrow> Inl e
           | Inr acc' \<Rightarrow> extract_files annotation_type (i + 1) fs acc'))"

definition extract_classes :: "fs \<Rightarrow> path \<Rightarrow> string \<Rightarrow> error + class_maps" where
  "extract_classes s annotations_path annotation_type =
     extract_files annotation_type 0 (json_files s annotations_path) ([], [])"

subsection \<open>\<open>get_classes\<close>\<close>

text \<open>
  \<open>str.strip()\<close> removes leading and trailing whitespace. Strings are byte strings here, and
  the whitespace characters are those of ASCII.
\<close>

definition is_space :: "char \<Rightarrow> bool" where
  "is_space c \<longleftrightarrow>
     c \<in> set [CHR 0x09, CHR 0x0A, CHR 0x0B, CHR 0x0C, CHR 0x0D,
              CHR 0x1C, CHR 0x1D, CHR 0x1E, CHR 0x1F, CHR 0x20]"

definition strip :: "string \<Rightarrow> string" where
  "strip s = rev (dropWhile is_space (rev (dropWhile is_space s)))"

definition get_classes :: "dataset option \<Rightarrow> string \<Rightarrow> bool \<Rightarrow> fs \<Rightarrow> error + string list" where
  "get_classes dataset annotation_type remove_background s =
     (case dataset of
        None \<Rightarrow> Inl AssertionError
      | Some d \<Rightarrow>
          let classes_file = ''classes_'' @ annotation_type @ ''.txt'' in
          case read_lines s (dataset_path d @ [''lists'', classes_file]) of
            Inl e \<Rightarrow> Inl e
          | Inr lines \<Rightarrow>
              let classes = map strip lines in
              if remove_background then
                (case classes of
                   [] \<Rightarrow> Inl IndexError
                 | first # rest \<Rightarrow>
                     if first = ''__background__'' then Inr rest else Inr classes)
              else Inr classes)"

subsection \<open>\<open>_write_to_file\<close>\<close>

text \<open>\<open>xs[i]\<close> on a Python list: a negative index counts from the end.\<close>

definition py_nth :: "'a list \<Rightarrow> int \<Rightarrow> error + 'a" where
  "py_nth xs i =
     (if 0 \<le> i \<and> i < int (length xs) then Inr (xs ! nat i)
      else if i < 0 \<and> - int (length xs) \<le> i then Inr (xs ! nat (int (length xs) + i))
      else Inl IndexError)"

text \<open>
  The loop \<open>for i in split_idx: f.write(f"{annotation_files[i].stem}\n")\<close>; the lines
  written before an exception stay in the file.
\<close>

fun write_lines :: "string list \<Rightarrow> int list \<Rightarrow> string list \<Rightarrow> error option \<times> string list" where
  "write_lines stems [] out = (None, out)"
| "write_lines stems (i # idx) out =
     (case py_nth stems i of
        Inl e \<Rightarrow> (Some e, out)
      | Inr stem \<Rightarrow> write_lines stems idx (out @ [stem @ [CHR 0x0A]]))"

text \<open>
  \<open>annotation_files\<close> is given by the stems of the files. \<open>split_idx\<close> is \<open>None\<close> for the
  third component of a two-way stratified split: iterating over it raises \<open>TypeError\<close>
  after the file has been opened.
\<close>

definition write_to_file :: "string list \<Rightarrow> path \<Rightarrow> int list option \<Rightarrow> fs \<Rightarrow> error option \<times> fs" where
  "write_to_file annotation_files file_path split_idx s =
     (case open_w s file_path of
        Inl e \<Rightarrow> (Some e, s)
      | Inr p \<Rightarrow>
          (case split_idx of
             None \<Rightarrow> (Some TypeError, s\<lparr>nodes := (nodes s)(p \<mapsto> File [])\<rparr>)
           | Some idx \<Rightarrow>
               (let (err, out) = write_lines annotation_files idx []
                in (err, s\<lparr>nodes := (nodes s)(p \<mapsto> File out)\<rparr>))))"

subsection \<open>\<open>split_dataset\<close>\<close>

text \<open>\<open>str(i)\<close> for an integer: its decimal digits.\<close>

fun str_nat :: "nat \<Rightarrow> string" where
  "str_nat n =
     (if n < 10 then [''0123456789'' ! n]
      else str_nat (n div 10) @ [''0123456789'' ! (n mod 10)])"

declare str_nat.simps [simp del]

definition str_int :: "int \<Rightarrow> string" where
  "str_int i = (if i < 0 then CHR ''-'' # str_nat (nat (- i)) else str_nat (nat i))"

text \<open>
  Lines 292 to 304: the checks of the percentages and of the seed, in the order of the
  source. Each failure raises \<open>ValueError\<close>.
\<close>

definition check_parameters ::
  "real option \<Rightarrow> real option \<Rightarrow> int option \<Rightarrow> error + (real \<times> real \<times> int)" where
  "check_parameters val_percentage test_percentage split_seed =
     (case val_percentage of
        None \<Rightarrow> Inl ValueError
      | Some v \<Rightarrow>
          if \<not> (0 < v \<and> v < 1) then Inl ValueError
          else
            case test_percentage of
              None \<Rightarrow> Inl ValueError
            | Some t \<Rightarrow>
                if \<not> (0 \<le> t \<and> t < 1) then Inl ValueError
                else if \<not> v + t < 1 then Inl ValueError
                else
                  case split_seed of
                    None \<Rightarrow> Inl ValueError
                  | Some seed \<Rightarrow> Inr (v, t, seed))"

text \<open>
  Lines 305 to 307. The suffix is appended by \<open>split_id += "_s{split_seed}"\<close>, a plain
  string literal.
\<close>

definition split_id :: "real \<Rightarrow> real \<Rightarrow> int \<Rightarrow> string" where
  "split_id val_percentage test_percentage split_seed =
     (let sid = ''split_v'' @ str_int (py_int (val_percentage * 100)) @
                ''_t'' @ str_int (py_int (test_percentage * 100))
      in if split_seed \<noteq> 0 then sid @ ''_s{split_seed}'' else sid)"

text \<open>The returned dictionary: for each strategy the paths of its lists.\<close>

record split_paths =
  train_path :: path
  val_path :: path
  test_path :: "path option"

definition splits_of :: "path \<Rightarrow> real \<Rightarrow> (string \<times> split_paths) list" where
  "splits_of split_path test_percentage =
     map (\<lambda>strategy.
            (strategy,
             \<lparr>train_path = split_path @ [strategy @ ''_train.txt''],
              val_path = split_path @ [strategy @ ''_val.txt''],
              test_path = (if test_percentage > 0
                           then Some (split_path @ [strategy @ ''_test.txt'']) else None)\<rparr>))
         [''random'', ''stratified_tag'', ''stratified_polygon'']"

text \<open>\<open>arr[lo:hi]\<close>: a missing bound is \<open>None\<close>, a negative bound counts from the end.\<close>

definition slice_bound :: "int \<Rightarrow> int \<Rightarrow> int" where
  "slice_bound n i = (if i < 0 then max 0 (n + i) else min i n)"

definition py_slice :: "'a list \<Rightarrow> int option \<Rightarrow> int option \<Rightarrow> 'a list" where
  "py_slice arr lo hi =
     (let n = int (length arr);
          a = (case lo of None \<Rightarrow> 0 | Some i \<Rightarrow> slice_bound n i);
          b = (case hi of None \<Rightarrow> n | Some i \<Rightarrow> slice_bound n i)
      in take (nat (b - a)) (drop (nat a) arr))"

text \<open>
  A Python float is an IEEE 754 double: 53 significant bits, rounding to nearest, ties to
  even. \<open>bit_length n\<close> is the number of binary digits of \<open>n\<close>, and \<open>binary_exponent x\<close> the
  integer \<open>e\<close> with \<open>2 ^ e \<le> x < 2 ^ (e + 1)\<close> for a positive \<open>x\<close>. \<open>ulp x\<close> is the distance of
  neighbouring doubles at the magnitude of \<open>x\<close>, and \<open>round_double x\<close> the double nearest to
  the real number \<open>x\<close>. Overflow and subnormal numbers are not modelled.
\<close>

fun bit_length :: "nat \<Rightarrow> nat" where
  "bit_length n = (if n = 0 then 0 else Suc (bit_length (n div 2)))"

declare bit_length.simps [simp del]

definition binary_exponent :: "real \<Rightarrow> int" where
  "binary_exponent x =
     (if 1 \<le> x then int (bit_length (nat \<lfloor>x\<rfloor>)) - 1
      else - int (bit_length (nat \<lceil>1 / x\<rceil> - 1)))"

definition round_half_even :: "real \<Rightarrow> int" where
  "round_half_even y =
     (if y - real_of_int \<lfloor>y\<rfloor> < 1 / 2 then \<lfloor>y\<rfloor>
      else if 1 / 2 < y - real_of_int \<lfloor>y\<rfloor> then \<lfloor>y\<rfloor> + 1
      else if even \<lfloor>y\<rfloor> then \<lfloor>y\<rfloor> else \<lfloor>y\<rfloor> + 1)"

definition ulp :: "real \<Rightarrow> real" where
  "ulp x =
     (let e = binary_exponent \<bar>x\<bar> - 52
      in if 0 \<le> e then 2 ^ nat e else 1 / 2 ^ nat (- e))"

definition round_double :: "real \<Rightarrow> real" where
  "round_double x =
     (if x = 0 then 0 else real_of_int (round_half_even (x / ulp x)) * ulp x)"

text \<open>
  \<open>dataset_size * val_percentage\<close>, an \<open>int\<close> times a \<open>float\<close>: the integer is converted to a
  double and the product is rounded to a double.
\<close>

definition float_mul :: "nat \<Rightarrow> real \<Rightarrow> real" where
  "float_mul n x = round_double (round_double (real n) * x)"

text \<open>
  Lines 335 to 344, the random split: \<open>indices\<close> is the value of
  \<open>np.random.permutation(dataset_size)\<close> after \<open>np.random.seed(split_seed)\<close>. The two sizes
  are \<open>int\<close> of a floating-point product.
\<close>

definition random_split :: "int list \<Rightarrow> nat \<Rightarrow> real \<Rightarrow> real \<Rightarrow> int list \<times> int list \<times> int list" where
  "random_split indices dataset_size val_percentage test_percentage =
     (let val_size = py_int (float_mul dataset_size val_percentage);
          test_size = py_int (float_mul dataset_size test_percentage);
          train_size = int dataset_size - val_size - test_size
      in (py_slice indices None (Some train_size),
          py_slice indices (Some train_size) (Some (train_size + val_size)),
          py_slice indices (Some (train_size + val_size)) None))"

text \<open>
  Lines 353 to 362 and 366 to 375: one stratified split, for the annotation type \<open>tag\<close> or
  \<open>polygon\<close>. The result carries the number of random draws made so far.
\<close>

definition stratified_split ::
  "string splitter \<Rightarrow> (nat \<Rightarrow> bool) \<Rightarrow> nat \<Rightarrow> path \<Rightarrow> string \<Rightarrow> string list \<Rightarrow> split_paths \<Rightarrow>
     int \<Rightarrow> real \<Rightarrow> real \<Rightarrow> fs \<Rightarrow> (error + nat) \<times> fs" where
  "stratified_split train_test_split heads n annotation_path annotation_type annotation_files
     paths split_seed test_percentage val_percentage s =
     (case extract_classes s annotation_path annotation_type of
        Inl e \<Rightarrow> (Inl e, s)
      | Inr (classes, idx_to_classes) \<Rightarrow>
          if length idx_to_classes > 0 then
            (case stratify_samples train_test_split heads n idx_to_classes split_seed
                    test_percentage val_percentage of
               Inl e \<Rightarrow> (Inl e, s)
             | Inr ((train_indices, val_indices, test_indices), n') \<Rightarrow>
                 (case write_to_file annotation_files (train_path paths) (Some train_indices) s of
                    (Some e, s1) \<Rightarrow> (Inl e, s1)
                  | (None, s1) \<Rightarrow>
                      (case write_to_file annotation_files (val_path paths) (Some val_indices) s1 of
                         (Some e, s2) \<Rightarrow> (Inl e, s2)
                       | (None, s2) \<Rightarrow>
                           (case test_path paths of
                              Some tp \<Rightarrow>
                                (case write_to_file annotation_files tp test_indices s2 of
                                   (Some e, s3) \<Rightarrow> (Inl e, s3)
                                 | (None, s3) \<Rightarrow> (Inr n', s3))
                            | None \<Rightarrow> (Inr n', s2)))))
          else (Inr n, s))"

text \<open>
  Lines 330 to 375, the body of \<open>if not split_path.exists()\<close>. \<open>np.random.seed\<close> accepts a
  seed from \<open>0\<close> to \<open>2 ** 32 - 1\<close>; \<open>permutation seed n\<close> is the value of
  \<open>np.random.permutation(n)\<close> after seeding with \<open>seed\<close>, and \<open>heads\<close> gives the draws that
  follow it.
\<close>

definition do_split ::
  "string splitter \<Rightarrow> (nat \<Rightarrow> bool) \<Rightarrow> (int \<Rightarrow> nat \<Rightarrow> int list) \<Rightarrow> path \<Rightarrow> string list \<Rightarrow>
     (string \<times> split_paths) list \<Rightarrow> path \<Rightarrow> int \<Rightarrow> real \<Rightarrow> real \<Rightarrow> fs \<Rightarrow> error option \<times> fs" where
  "do_split train_test_split heads permutation annotation_path annotation_files splits
     split_path split_seed test_percentage val_percentage s =
     (case makedirs split_path s of
        Inl e \<Rightarrow> (Some e, s)
      | Inr s0 \<Rightarrow>
          if split_seed < 0 \<or> 2 ^ 32 \<le> split_seed then (Some ValueError, s0)
          else
            let dataset_size = length annotation_files;
                (train_indices, val_indices, test_indices) =
                   random_split (permutation split_seed dataset_size) dataset_size
                     val_percentage test_percentage;
                random = snd (splits ! 0);
                stratified_tag = snd (splits ! 1);
                stratified_polygon = snd (splits ! 2)
            in
            case write_to_file annotation_files (train_path random) (Some train_indices) s0 of
              (Some e, s1) \<Rightarrow> (Some e, s1)
            | (None, s1) \<Rightarrow>
            case write_to_file annotation_files (val_path random) (Some val_indices) s1 of
              (Some e, s2) \<Rightarrow> (Some e, s2)
            | (None, s2) \<Rightarrow>
            case (case test_path random of
                    Some tp \<Rightarrow> write_to_file annotation_files tp (Some test_indices) s2
                  | None \<Rightarrow> (None, s2)) of
              (Some e, s3) \<Rightarrow> (Some e, s3)
            | (None, s3) \<Rightarrow>
            case stratified_split train_test_split heads 0 annotation_path ''tag''
                   annotation_files stratified_tag split_seed test_percentage val_percentage s3 of
              (Inl e, s4) \<Rightarrow> (Some e, s4)
            | (Inr n, s4) \<Rightarrow>
            case stratified_split train_test_split heads n annotation_path ''polygon''
                   annotation_files stratified_polygon split_seed test_percentage
                   val_percentage s4 of
              (Inl e, s5) \<Rightarrow> (Some e, s5)
            | (Inr n', s5) \<Rightarrow> (None, s5))"

text \<open>Lines 378 to 382: the symbolic link \<open>lists/split\<close> of the default split.\<close>

definition update_default_split :: "path \<Rightarrow> string \<Rightarrow> bool \<Rightarrow> fs \<Rightarrow> error option \<times> fs" where
  "update_default_split lists_path sid make_default_split s =
     (let split = lists_path @ [''split''] in
      if make_default_split \<or> \<not> path_exists s split then
        (case (if path_exists s split then unlink split s else Inr s) of
           Inl e \<Rightarrow> (Some e, s)
         | Inr s1 \<Rightarrow>
             (case symlink_to split (lists_path @ [sid]) s1 of
                Inl e \<Rightarrow> (Some e, s1)
              | Inr s2 \<Rightarrow> (None, s2)))
      else (None, s))"

text \<open>
  \<open>split_dataset\<close> returns the dictionary of paths or raises, and leaves the file system in
  a new state either way. The parameter \<open>force_resplit\<close> does not occur in the body of the
  source function.
\<close>

definition split_dataset ::
  "string splitter \<Rightarrow> (nat \<Rightarrow> bool) \<Rightarrow> (int \<Rightarrow> nat \<Rightarrow> int list) \<Rightarrow>
     dataset option \<Rightarrow> real option \<Rightarrow> real option \<Rightarrow> bool \<Rightarrow> int option \<Rightarrow> bool \<Rightarrow> fs \<Rightarrow>
     (error + (string \<times> split_paths) list) \<times> fs" where
  "split_dataset train_test_split heads permutation dataset val_percentage test_percentage
     force_resplit split_seed make_default_split s =
     (case dataset of
        None \<Rightarrow> (Inl AssertionError, s)
      | Some d \<Rightarrow>
          let annotation_path = dataset_path d @ [''annotations''] in
          if \<not> path_exists s annotation_path then (Inl AssertionError, s)
          else
            let annotation_files = map fst (json_files s annotation_path);
                lists_path = dataset_path d @ [''lists'']
            in
            case makedirs lists_path s of
              Inl e \<Rightarrow> (Inl e, s)
            | Inr s1 \<Rightarrow>
                (case check_parameters val_percentage test_percentage split_seed of
                   Inl e \<Rightarrow> (Inl e, s1)
                 | Inr (v, t, seed) \<Rightarrow>
                     let sid = split_id v t seed;
                         split_path = lists_path @ [sid];
                         splits = splits_of split_path t
                     in
                     case (if \<not> path_exists s1 split_path
                           then do_split train_test_split heads permutation annotation_path
                                  annotation_files splits split_path seed t v s1
                           else (None, s1)) of
                       (Some e, s2) \<Rightarrow> (Inl e, s2)
                     | (None, s2) \<Rightarrow>
                         (case update_default_split lists_path sid make_default_split s2 of
                            (Some e, s3) \<Rightarrow> (Inl e, s3)
                          | (None, s3) \<Rightarrow> (Inr splits, s3))))"

subsection \<open>Example file systems\<close>

text \<open>
  A dataset \<open>d\<close> with two annotation files and no \<open>lists\<close> directory yet.
\<close>

definition fresh_dataset :: fs where
  "fresh_dataset =
     \<lparr>nodes = [[''d''] \<mapsto> Dir, [''d'', ''annotations''] \<mapsto> Dir],
      json_files = (\<lambda>p. if p = [''d'', ''annotations'']
                         then [(''im0'', Inr []), (''im1'', Inr [])] else [])\<rparr>"

text \<open>
  The same dataset after an earlier split with 10 percent validation, 20 percent test and
  seed 0: the split directory exists and holds a list written by that split.
\<close>

definition dataset_with_split :: fs where
  "dataset_with_split =
     \<lparr>nodes = [[''d''] \<mapsto> Dir, [''d'', ''annotations''] \<mapsto> Dir, [''d'', ''lists''] \<mapsto> Dir,
               [''d'', ''lists'', ''split_v10_t20''] \<mapsto> Dir,
               [''d'', ''lists'', ''split_v10_t20'', ''random_train.txt''] \<mapsto>
                 File [''old'' @ [CHR 0x0A]]],
      json_files = (\<lambda>p. if p = [''d'', ''annotations'']
                         then [(''im0'', Inr []), (''im1'', Inr [])] else [])\<rparr>"

text \<open>A dataset whose class list starts with the background class, and one whose class list is empty.\<close>

definition dataset_with_classes :: fs where
  "dataset_with_classes =
     \<lparr>nodes = [[''d'', ''lists'', ''classes_tag.txt''] \<mapsto>
                 File [''__background__'' @ [CHR 0x0A], ''cat'' @ [CHR 0x0A],
                       ''  dog '' @ [CHR 0x0A]],
               [''d'', ''lists'', ''classes_polygon.txt''] \<mapsto> File []],
      json_files = (\<lambda>p. [])\<rparr>"

section \<open>Auxiliary notions for the proofs\<close>

text \<open>
  Two parallel arrays are aligned with their originals when both result from deleting the
  rows whose index value lies in one set of removed values.
\<close>

definition aligned :: "'a list \<Rightarrow> 'b list \<Rightarrow> 'a list \<Rightarrow> 'b list \<Rightarrow> bool" where
  "aligned xs0 ys0 xs ys \<longleftrightarrow>
     (\<exists>R. xs = map fst (filter (\<lambda>p. fst p \<notin> R) (zip xs0 ys0)) \<and>
          ys = map snd (filter (\<lambda>p. fst p \<notin> R) (zip xs0 ys0)))"

text \<open>The loop invariant of \<open>remove_cross_contamination\<close>: both sides stay aligned.\<close>

definition rcc_inv :: "'a list \<Rightarrow> 'a list \<Rightarrow> 'b list \<Rightarrow> 'b list \<Rightarrow> ('a, 'b) rcc_state \<Rightarrow> bool" where
  "rcc_inv xa xb ya yb s \<longleftrightarrow>
     aligned xa ya (X_a s) (y_a s) \<and> aligned xb yb (X_b s) (y_b s)"

section \<open>Cross-contamination repair\<close>

lemma select_neq_mask: "select xs (neq_mask xs a) = filter (\<lambda>x. x \<noteq> a) xs"
  unfolding select_def neq_mask_def by (induction xs) auto

lemma select_pair_neq_mask:
  "length ys = length xs \<Longrightarrow>
   select ys (neq_mask xs a) = map snd (filter (\<lambda>p. fst p \<noteq> a) (zip xs ys))"
  unfolding select_def neq_mask_def
  by (induction xs ys rule: list_induct2') auto

lemma select_map_mask:
  "length ys = length xs \<Longrightarrow>
   select ys (map P xs) = map snd (filter (\<lambda>p. P (fst p)) (zip xs ys))"
  unfolding select_def
  by (induction xs ys rule: list_induct2') auto

lemma select_map_mask_self: "select xs (map P xs) = filter P xs"
  unfolding select_def by (induction xs) auto

lemma aligned_refl: "length xs0 = length ys0 \<Longrightarrow> aligned xs0 ys0 xs0 ys0"
  unfolding aligned_def by (rule exI [of _ "{}"]) simp

lemma aligned_length: "aligned xs0 ys0 xs ys \<Longrightarrow> length xs = length ys"
  unfolding aligned_def by auto

lemma zip_fst_snd_id: "zip (map fst ps) (map snd ps) = ps"
  by (induction ps) auto

lemma aligned_step:
  assumes "aligned xs0 ys0 xs ys"
  shows "aligned xs0 ys0 (select xs (neq_mask xs a)) (select ys (neq_mask xs a))"
proof -
  from assms obtain R where
    xs: "xs = map fst (filter (\<lambda>p. fst p \<notin> R) (zip xs0 ys0))" and
    ys: "ys = map snd (filter (\<lambda>p. fst p \<notin> R) (zip xs0 ys0))"
    unfolding aligned_def by blast
  let ?ps = "filter (\<lambda>p. fst p \<notin> R) (zip xs0 ys0)"
  have len: "length ys = length xs" using xs ys by simp
  have z: "zip xs ys = ?ps" using xs ys by (simp add: zip_fst_snd_id)
  have a: "select xs (neq_mask xs a) = map fst (filter (\<lambda>p. fst p \<notin> insert a R) (zip xs0 ys0))"
    unfolding select_neq_mask xs by (simp add: filter_map o_def conj_commute)
  have b: "select ys (neq_mask xs a) = map snd (filter (\<lambda>p. fst p \<notin> insert a R) (zip xs0 ys0))"
    unfolding select_pair_neq_mask [OF len] z by (simp add: conj_commute)
  show ?thesis unfolding aligned_def using a b by blast
qed

lemma aligned_mask:
  assumes "aligned xs0 ys0 xs ys" "length xs0 = length ys0"
  shows "\<exists>keep. length keep = length xs0 \<and> xs = select xs0 keep \<and> ys = select ys0 keep"
proof -
  from assms obtain R where
    xs: "xs = map fst (filter (\<lambda>p. fst p \<notin> R) (zip xs0 ys0))" and
    ys: "ys = map snd (filter (\<lambda>p. fst p \<notin> R) (zip xs0 ys0))"
    unfolding aligned_def by blast
  let ?keep = "map (\<lambda>x. x \<notin> R) xs0"
  have "ys = select ys0 ?keep"
    using select_map_mask [of ys0 xs0 "\<lambda>x. x \<notin> R"] assms(2) ys by simp
  moreover have "xs = select xs0 ?keep"
  proof -
    have "map fst (filter (\<lambda>p. fst p \<notin> R) (zip xs0 ys0)) = filter (\<lambda>x. x \<notin> R) xs0"
      using assms(2) by (induction xs0 ys0 rule: list_induct2) auto
    then show ?thesis using xs by (simp add: select_map_mask_self)
  qed
  ultimately show ?thesis by (intro exI [of _ ?keep]) simp
qed

lemma rcc_step_total:
  assumes "rcc_inv xa xb ya yb s"
  shows "\<exists>s'. rcc_step heads a s = Inr s' \<and> rcc_inv xa xb ya yb s' \<and>
           set (X_a s') \<subseteq> set (X_a s) \<and> set (X_b s') \<subseteq> set (X_b s) \<and>
           (a \<notin> set (X_a s') \<or> a \<notin> set (X_b s'))"
proof -
  have la: "length (y_a s) = length (X_a s)" and lb: "length (y_b s) = length (X_b s)"
    using assms aligned_length unfolding rcc_inv_def by fastforce+
  show ?thesis
  proof (cases "a \<in> set (X_b s)")
    case False
    then show ?thesis using assms by (simp add: rcc_step_def)
  next
    case True
    show ?thesis
    proof (cases "heads (draws s)")
      case True
      with \<open>a \<in> set (X_b s)\<close> la assms aligned_step [of xa ya "X_a s" "y_a s" a]
      show ?thesis
        by (auto simp: rcc_step_def bool_index_def neq_mask_def rcc_inv_def Let_def
              select_map_mask_self)
    next
      case False
      with \<open>a \<in> set (X_b s)\<close> lb assms aligned_step [of xb yb "X_b s" "y_b s" a]
      show ?thesis
        by (auto simp: rcc_step_def bool_index_def neq_mask_def rcc_inv_def Let_def
              select_map_mask_self)
    qed
  qed
qed

lemma rcc_loop_total:
  assumes "rcc_inv xa xb ya yb s"
  shows "\<exists>s'. rcc_loop heads as s = Inr s' \<and> rcc_inv xa xb ya yb s' \<and>
           set (X_a s') \<subseteq> set (X_a s) \<and> set (X_b s') \<subseteq> set (X_b s) \<and>
           (\<forall>a \<in> set as. a \<notin> set (X_a s') \<or> a \<notin> set (X_b s'))"
  using assms
proof (induction as arbitrary: s)
  case Nil
  then show ?case by simp
next
  case (Cons a as)
  from rcc_step_total [OF Cons.prems, of heads a] obtain s1 where
    s1: "rcc_step heads a s = Inr s1" "rcc_inv xa xb ya yb s1"
        "set (X_a s1) \<subseteq> set (X_a s)" "set (X_b s1) \<subseteq> set (X_b s)"
        "a \<notin> set (X_a s1) \<or> a \<notin> set (X_b s1)"
    by blast
  from Cons.IH [OF s1(2)] obtain s2 where
    s2: "rcc_loop heads as s1 = Inr s2" "rcc_inv xa xb ya yb s2"
        "set (X_a s2) \<subseteq> set (X_a s1)" "set (X_b s2) \<subseteq> set (X_b s1)"
        "\<forall>a \<in> set as. a \<notin> set (X_a s2) \<or> a \<notin> set (X_b s2)"
    by blast
  have "rcc_loop heads (a # as) s = Inr s2" using s1(1) s2(1) by simp
  moreover have "a \<notin> set (X_a s2) \<or> a \<notin> set (X_b s2)" using s1(5) s2(3,4) by blast
  ultimately show ?case using s1 s2 by (intro exI [of _ s2]) auto
qed

lemma select_subseq: "subseq (select xs keep) xs"
  unfolding select_def
proof (induction xs arbitrary: keep)
  case Nil
  then show ?case by simp
next
  case (Cons x xs)
  then show ?case by (cases keep) (auto intro: subseq_Cons')
qed

text \<open>
  The repair works on the index arrays alone: whatever the label arrays are, the returned
  index arrays are parts of the inputs and have no value in common.
\<close>

lemma rcc_step_sets:
  assumes "rcc_step heads a s = Inr s'"
  shows "set (X_a s') \<subseteq> set (X_a s) \<and> set (X_b s') \<subseteq> set (X_b s) \<and>
         (a \<notin> set (X_a s') \<or> a \<notin> set (X_b s'))"
  using assms
  by (auto simp: rcc_step_def bool_index_def Let_def select_neq_mask
           split: if_splits sum.splits)

lemma rcc_loop_sets:
  assumes "rcc_loop heads as s = Inr s'"
  shows "set (X_a s') \<subseteq> set (X_a s) \<and> set (X_b s') \<subseteq> set (X_b s) \<and>
         (\<forall>a \<in> set as. a \<notin> set (X_a s') \<or> a \<notin> set (X_b s'))"
  using assms
proof (induction as arbitrary: s)
  case Nil
  then show ?case by simp
next
  case (Cons a as)
  from Cons.prems obtain s1 where
    s1: "rcc_step heads a s = Inr s1" and rest: "rcc_loop heads as s1 = Inr s'"
    by (auto split: sum.splits)
  from rcc_step_sets [OF s1] Cons.IH [OF rest] show ?case by auto
qed

lemma remove_cross_contamination_sets:
  assumes "remove_cross_contamination heads n xa xb ya yb = Inr s"
  shows "set (X_a s) \<subseteq> set xa \<and> set (X_b s) \<subseteq> set xb \<and> set (X_a s) \<inter> set (X_b s) = {}"
proof -
  from rcc_loop_sets [OF assms [unfolded remove_cross_contamination_def]]
  have "set (X_a s) \<subseteq> set xa" "set (X_b s) \<subseteq> set xb"
    "\<forall>a \<in> set xa. a \<notin> set (X_a s) \<or> a \<notin> set (X_b s)"
    by simp_all
  then show ?thesis by blast
qed

text \<open>
  Claim C5. For inputs whose index and label arrays have equal lengths,
  \<open>remove_cross_contamination\<close> returns without raising; the two returned index arrays
  have no value in common; each is a subsequence of its input; and each returned label
  array is its input filtered by the very boolean mask that filters the paired index
  array, so that the pairs stay aligned and of equal length.
\<close>

theorem remove_cross_contamination_disjoint_aligned:
  assumes "length xa = length ya" and "length xb = length yb"
  shows "\<exists>s. remove_cross_contamination heads n xa xb ya yb = Inr s \<and>
           set (X_a s) \<inter> set (X_b s) = {} \<and>
           subseq (X_a s) xa \<and> subseq (X_b s) xb \<and>
           (\<exists>keep. length keep = length xa \<and> X_a s = select xa keep \<and> y_a s = select ya keep) \<and>
           (\<exists>keep. length keep = length xb \<and> X_b s = select xb keep \<and> y_b s = select yb keep) \<and>
           length (X_a s) = length (y_a s) \<and> length (X_b s) = length (y_b s)"
proof -
  let ?s0 = "\<lparr>X_a = xa, X_b = xb, y_a = ya, y_b = yb, draws = n\<rparr>"
  have inv0: "rcc_inv xa xb ya yb ?s0"
    using assms by (simp add: rcc_inv_def aligned_refl)
  from rcc_loop_total [OF inv0, of heads xa] obtain s where
    s: "rcc_loop heads xa ?s0 = Inr s" "rcc_inv xa xb ya yb s"
       "set (X_a s) \<subseteq> set xa" "\<forall>a \<in> set xa. a \<notin> set (X_a s) \<or> a \<notin> set (X_b s)"
    by auto
  have disj: "set (X_a s) \<inter> set (X_b s) = {}" using s(3,4) by blast
  have al: "aligned xa ya (X_a s) (y_a s)" "aligned xb yb (X_b s) (y_b s)"
    using s(2) by (simp_all add: rcc_inv_def)
  from aligned_mask [OF al(1) assms(1)] obtain ka where
    ka: "length ka = length xa" "X_a s = select xa ka" "y_a s = select ya ka" by blast
  from aligned_mask [OF al(2) assms(2)] obtain kb where
    kb: "length kb = length xb" "X_b s = select xb kb" "y_b s = select yb kb" by blast
  have "subseq (X_a s) xa" "subseq (X_b s) xb"
    using ka(2) kb(2) select_subseq by metis+
  moreover have "length (X_a s) = length (y_a s)" "length (X_b s) = length (y_b s)"
    using al aligned_length by blast+
  ultimately show ?thesis
    unfolding remove_cross_contamination_def using s(1) disj ka kb by blast
qed

theorem remove_cross_contamination_disjoint_aligned_witness:
  "length [1, 2, 3 :: int] = length [''a'', ''b'', ''c''] \<and>
   length [3, 4, 5 :: int] = length [''c'', ''d'', ''e''] \<and>
   (\<exists>s. remove_cross_contamination (\<lambda>k. True) 0 [1, 2, 3 :: int] [3, 4, 5]
           [''a'', ''b'', ''c''] [''c'', ''d'', ''e''] = Inr s \<and>
        set (X_a s) \<inter> set (X_b s) = {} \<and>
        subseq (X_a s) [1, 2, 3] \<and> subseq (X_b s) [3, 4, 5] \<and>
        (\<exists>keep. length keep = length [1, 2, 3 :: int] \<and> X_a s = select [1, 2, 3] keep \<and>
                y_a s = select [''a'', ''b'', ''c''] keep) \<and>
        (\<exists>keep. length keep = length [3, 4, 5 :: int] \<and> X_b s = select [3, 4, 5] keep \<and>
                y_b s = select [''c'', ''d'', ''e''] keep) \<and>
        length (X_a s) = length (y_a s) \<and> length (X_b s) = length (y_b s))"
  using remove_cross_contamination_disjoint_aligned
          [of "[1, 2, 3 :: int]" "[''a'', ''b'', ''c'']" "[3, 4, 5]" "[''c'', ''d'', ''e'']"
              "\<lambda>k. True" 0]
  by simp

text \<open>
  The example of the specification, \<open>A = [1, 2, 3]\<close> and \<open>B = [3, 4, 5]\<close>: one coin is
  flipped, and the value 3 leaves exactly one side.
\<close>

lemma rcc_example_one_flip:
  "remove_cross_contamination heads n [1, 2, 3 :: int] [3, 4, 5] [''a'', ''b'', ''c'']
     [''c'', ''d'', ''e''] =
   Inr (if heads n
        then \<lparr>X_a = [1, 2], X_b = [3, 4, 5], y_a = [''a'', ''b''], y_b = [''c'', ''d'', ''e''],
              draws = Suc n\<rparr>
        else \<lparr>X_a = [1, 2, 3], X_b = [4, 5], y_a = [''a'', ''b'', ''c''], y_b = [''d'', ''e''],
              draws = Suc n\<rparr>)"
  by (simp add: remove_cross_contamination_def rcc_step_def bool_index_def neq_mask_def
        select_def)

text \<open>
  Claim C2. The claim says that every common value costs exactly one coin flip and stays
  on exactly one side. When the value occurs twice in \<open>X_a\<close>, the loop meets it twice:
  with heads first and tails second, two coins are flipped and the value 3 is removed
  from both sides.
\<close>

theorem rcc_duplicate_value_removed_from_both_sides:
  "remove_cross_contamination (\<lambda>k. k = 0) 0 [3, 3 :: int] [3] [''x'', ''y''] [''x''] =
   Inr \<lparr>X_a = [], X_b = [], y_a = [], y_b = [], draws = 2\<rparr>"
  by (simp add: remove_cross_contamination_def rcc_step_def bool_index_def neq_mask_def
        select_def)

section \<open>The stratified partitioner\<close>

subsection \<open>The loop over the singleton labels\<close>

lemma select_count_mask:
  "select u (map (\<lambda>c. c = n) (map f u)) = filter (\<lambda>l. f l = n) u"
  unfolding map_map o_def by (rule select_map_mask_self)

lemma first_index_rows:
  assumes "count_list (map snd rows) l = 1"
  shows "\<exists>i. first_index (map snd rows) l = Some i \<and> i < length rows \<and>
             np_delete (map snd rows) i = map snd (filter (\<lambda>p. snd p \<noteq> l) rows) \<and>
             np_delete (map fst rows) i = map fst (filter (\<lambda>p. snd p \<noteq> l) rows) \<and>
             {p \<in> set rows. snd p = l} = {rows ! i}"
  using assms
proof (induction rows)
  case Nil
  then show ?case by simp
next
  case (Cons r rows)
  show ?case
  proof (cases "snd r = l")
    case True
    with Cons.prems have zero: "count_list (map snd rows) l = 0" by simp
    then have notin: "l \<notin> set (map snd rows)" by (simp add: count_list_0_iff)
    then have keep: "filter (\<lambda>p. snd p \<noteq> l) rows = rows"
      by (auto simp: filter_id_conv)
    have "snd p \<noteq> l" if "p \<in> set rows" for p using that notin by auto
    then have "{p \<in> set (r # rows). snd p = l} = {r}" using True by auto
    with True keep show ?thesis
      by (intro exI [of _ 0]) (simp add: np_delete_def)
  next
    case False
    with Cons.prems have "count_list (map snd rows) l = 1" by simp
    from Cons.IH [OF this] obtain i where
      i: "first_index (map snd rows) l = Some i" "i < length rows"
         "np_delete (map snd rows) i = map snd (filter (\<lambda>p. snd p \<noteq> l) rows)"
         "np_delete (map fst rows) i = map fst (filter (\<lambda>p. snd p \<noteq> l) rows)"
         "{p \<in> set rows. snd p = l} = {rows ! i}"
      by blast
    have "{p \<in> set (r # rows). snd p = l} = {(r # rows) ! Suc i}"
      using False i(5) by auto
    with False i show ?thesis
      by (intro exI [of _ "Suc i"]) (simp add: np_delete_def)
  qed
qed

lemma count_list_filter_other:
  "l' \<noteq> l \<Longrightarrow>
   count_list (map snd (filter (\<lambda>p. snd p \<noteq> l) rows)) l' = count_list (map snd rows) l'"
  by (induction rows) auto

lemma singles_loop_rows:
  assumes "distinct ls" and "\<forall>l \<in> set ls. count_list (map snd rows) l = 1"
  shows "\<exists>sf'. singles_loop ls (sf, map snd rows, map fst rows) =
             Inr (sf', map snd (filter (\<lambda>p. snd p \<notin> set ls) rows),
                       map fst (filter (\<lambda>p. snd p \<notin> set ls) rows)) \<and>
           set sf' = set sf \<union> fst ` {p \<in> set rows. snd p \<in> set ls}"
  using assms
proof (induction ls arbitrary: sf rows)
  case Nil
  then show ?case by simp
next
  case (Cons l ls)
  let ?rows' = "filter (\<lambda>p. snd p \<noteq> l) rows"
  from Cons.prems have one: "count_list (map snd rows) l = 1" by simp
  from first_index_rows [OF one] obtain i where
    i: "first_index (map snd rows) l = Some i" "i < length rows"
       "np_delete (map snd rows) i = map snd ?rows'"
       "np_delete (map fst rows) i = map fst ?rows'"
       "{p \<in> set rows. snd p = l} = {rows ! i}"
    by blast
  have d: "distinct ls" and notin: "l \<notin> set ls" using Cons.prems(1) by simp_all
  have c: "\<forall>l' \<in> set ls. count_list (map snd ?rows') l' = 1"
  proof
    fix l' assume l': "l' \<in> set ls"
    then have "l' \<noteq> l" using notin by auto
    from count_list_filter_other [OF this, of rows] Cons.prems(2) l'
    show "count_list (map snd ?rows') l' = 1" by simp
  qed
  from Cons.IH [OF d c, of "sf @ [map fst rows ! i]"] obtain sf' where
    sf': "singles_loop ls (sf @ [map fst rows ! i], map snd ?rows', map fst ?rows') =
            Inr (sf', map snd (filter (\<lambda>p. snd p \<notin> set ls) ?rows'),
                      map fst (filter (\<lambda>p. snd p \<notin> set ls) ?rows'))"
         "set sf' = set (sf @ [map fst rows ! i]) \<union> fst ` {p \<in> set ?rows'. snd p \<in> set ls}"
    by blast
  have f: "filter (\<lambda>p. snd p \<notin> set ls) ?rows' = filter (\<lambda>p. snd p \<notin> set (l # ls)) rows"
    by (simp add: conj_commute)
  have run: "singles_loop (l # ls) (sf, map snd rows, map fst rows) =
               Inr (sf', map snd (filter (\<lambda>p. snd p \<notin> set (l # ls)) rows),
                         map fst (filter (\<lambda>p. snd p \<notin> set (l # ls)) rows))"
    using i(1,3,4) sf'(1) f by simp
  have "{p \<in> set rows. snd p \<in> set (l # ls)} =
          {rows ! i} \<union> {p \<in> set ?rows'. snd p \<in> set ls}"
    using i(5) notin by auto
  then have "set sf' = set sf \<union> fst ` {p \<in> set rows. snd p \<in> set (l # ls)}"
    using sf'(2) i(2) by (simp add: image_Un Un_assoc)
  with run show ?case by blast
qed

text \<open>The state of \<open>_stratify_samples\<close> after the loop over the singleton labels.\<close>

lemma singles_of_expanded:
  fixes rows :: "(int \<times> 'l::linorder) list"
  defines "labels \<equiv> map snd rows"
  defines "single \<equiv> (\<lambda>p. count_list labels (snd p) = 1)"
  shows "\<exists>sf. singles_loop (select (fst (np_unique labels)) (map (\<lambda>c. c = 1) (snd (np_unique labels))))
                 ([], labels, map fst rows) =
               Inr (sf, map snd (filter (\<lambda>p. \<not> single p) rows),
                        map fst (filter (\<lambda>p. \<not> single p) rows)) \<and>
             set sf = fst ` {p \<in> set rows. single p}"
proof -
  let ?ls = "filter (\<lambda>l. count_list labels l = 1) (sort (remdups labels))"
  have ls: "select (fst (np_unique labels)) (map (\<lambda>c. c = 1) (snd (np_unique labels))) = ?ls"
    by (simp only: np_unique_def Let_def fst_conv snd_conv select_count_mask)
  have d: "distinct ?ls" by simp
  have c: "\<forall>l \<in> set ?ls. count_list (map snd rows) l = 1" by (simp add: labels_def)
  have mem: "snd p \<in> set ?ls \<longleftrightarrow> single p" if "p \<in> set rows" for p
    using that by (auto simp: single_def labels_def)
  have filt: "filter (\<lambda>p. snd p \<notin> set ?ls) rows = filter (\<lambda>p. \<not> single p) rows"
    by (rule filter_cong) (use mem in auto)
  have st: "{p \<in> set rows. snd p \<in> set ?ls} = {p \<in> set rows. single p}"
    using mem by blast
  from singles_loop_rows [OF d c, of "[]"] show ?thesis
    unfolding ls filt st by (simp add: labels_def)
qed

lemma set_list_of_set: "set (list_of_set xs) = set xs"
  by (simp add: list_of_set_def)

lemma set_singleton_images:
  "set (singleton_images m) =
     fst ` {p \<in> set (expanded_list m). count_list (map snd (expanded_list m)) (snd p) = 1}"
  by (simp add: singleton_images_def Let_def)

lemma stratify_samples_after_singles:
  fixes m :: "'l::linorder idx_to_classes"
  defines "rows \<equiv> expanded_list m"
  defines "rest \<equiv> filter (\<lambda>p. count_list (map snd rows) (snd p) \<noteq> 1) rows"
  assumes "rows \<noteq> []"
  shows "\<exists>sf. set sf = set (singleton_images m) \<and>
    stratify_samples tts heads n m seed test val =
     (if rest = [] then Inr (([], [], Some []), n)
      else
        case tts (map fst rest) (map snd rest)
               (real_of_int (py_int ((val + test) * 100)) / 100) seed (map snd rest) of
          Inl e \<Rightarrow> Inl e
        | Inr (x_train, x_tmp, y_train, y_tmp) \<Rightarrow>
            (case remove_cross_contamination heads n x_train x_tmp y_train y_tmp of
               Inl e \<Rightarrow> Inl e
             | Inr s \<Rightarrow>
                 if test = 0 then
                   Inr ((list_of_set (X_a s @ sf), list_of_set (X_b s), None), draws s)
                 else if val + test = 0 then Inl ZeroDivisionError
                 else
                   case tts (X_b s) (y_b s) ((test * 100 / (val + test)) / 100) seed (y_b s) of
                     Inl e \<Rightarrow> Inl e
                   | Inr (x_val, x_test, y_val, y_test) \<Rightarrow>
                       (case remove_cross_contamination heads (draws s) x_val x_test y_val y_test of
                          Inl e \<Rightarrow> Inl e
                        | Inr s' \<Rightarrow>
                            Inr ((list_of_set (X_a s @ sf), list_of_set (X_a s'),
                                  Some (list_of_set (X_b s'))), draws s'))))"
proof -
  from singles_of_expanded [of rows] obtain sf where
    loop: "singles_loop
             (select (fst (np_unique (map snd rows)))
                (map (\<lambda>c. c = 1) (snd (np_unique (map snd rows)))))
             ([], map snd rows, map fst rows) =
           Inr (sf, map snd rest, map fst rest)"
    and sf: "set sf = fst ` {p \<in> set rows. count_list (map snd rows) (snd p) = 1}"
    unfolding rest_def by blast
  have "set sf = set (singleton_images m)"
    using sf by (simp add: set_singleton_images rows_def)
  moreover have "stratify_samples tts heads n m seed test val =
     (if rest = [] then Inr (([], [], Some []), n)
      else
        case tts (map fst rest) (map snd rest)
               (real_of_int (py_int ((val + test) * 100)) / 100) seed (map snd rest) of
          Inl e \<Rightarrow> Inl e
        | Inr (x_train, x_tmp, y_train, y_tmp) \<Rightarrow>
            (case remove_cross_contamination heads n x_train x_tmp y_train y_tmp of
               Inl e \<Rightarrow> Inl e
             | Inr s \<Rightarrow>
                 if test = 0 then
                   Inr ((list_of_set (X_a s @ sf), list_of_set (X_b s), None), draws s)
                 else if val + test = 0 then Inl ZeroDivisionError
                 else
                   case tts (X_b s) (y_b s) ((test * 100 / (val + test)) / 100) seed (y_b s) of
                     Inl e \<Rightarrow> Inl e
                   | Inr (x_val, x_test, y_val, y_test) \<Rightarrow>
                       (case remove_cross_contamination heads (draws s) x_val x_test y_val y_test of
                          Inl e \<Rightarrow> Inl e
                        | Inr s' \<Rightarrow>
                            Inr ((list_of_set (X_a s @ sf), list_of_set (X_a s'),
                                  Some (list_of_set (X_b s'))), draws s'))))"
    unfolding stratify_samples_def Let_def split_beta rows_def [symmetric]
    using assms(3) loop by (simp add: Let_def cong: sum.case_cong if_cong)
  ultimately show ?thesis by blast
qed

lemmas stratify_eval = stratify_samples_def expanded_list_def np_unique_def select_def
  np_delete_def list_of_set_def py_int_def remove_cross_contamination_def rcc_step_def
  bool_index_def neq_mask_def singleton_images_def

subsection \<open>Degenerate inputs\<close>

text \<open>
  The claim C4 as stated fails: called with the empty mapping, \<open>_stratify_samples\<close> raises
  \<open>ValueError\<close> (line 196 unpacks the zipped rows into \<open>file_indices\<close> and \<open>labels\<close>, and there
  is nothing to unpack), whether \<open>test_percentage\<close> is zero or not.
\<close>

theorem stratify_samples_empty_mapping_raises:
  "stratify_samples (\<lambda>X y test_size seed st. Inl ValueError) (\<lambda>k. True) 0
     ([] :: string idx_to_classes) 0 (1 / 5) (1 / 10) = Inl ValueError \<and>
   stratify_samples (\<lambda>X y test_size seed st. Inl ValueError) (\<lambda>k. True) 0
     ([] :: string idx_to_classes) 0 0 (1 / 10) = Inl ValueError"
  by (simp add: stratify_eval)

text \<open>
  Claim C4, amended. When the mapping yields no row (it is empty, or every image has an
  empty set of classes), \<open>_stratify_samples\<close> raises \<open>ValueError\<close>; \<open>split_dataset\<close> calls it
  only with a mapping that is not empty. When the mapping yields at least one row and
  every label is a singleton, it returns \<open>([], [], [])\<close> without raising, also when
  \<open>test_percentage\<close> is zero, and draws no random number.
\<close>

theorem stratify_samples_degenerate:
  fixes m :: "'l::linorder idx_to_classes"
  shows "(expanded_list m = [] \<longrightarrow>
            stratify_samples tts heads n m seed test val = Inl ValueError) \<and>
         (expanded_list m \<noteq> [] \<and>
          (\<forall>c \<in> set (map snd (expanded_list m)). count_list (map snd (expanded_list m)) c = 1) \<longrightarrow>
            stratify_samples tts heads n m seed test val = Inr (([], [], Some []), n))"
proof (intro conjI impI)
  assume "expanded_list m = []"
  then show "stratify_samples tts heads n m seed test val = Inl ValueError"
    by (simp add: stratify_samples_def)
next
  assume a: "expanded_list m \<noteq> [] \<and>
    (\<forall>c \<in> set (map snd (expanded_list m)). count_list (map snd (expanded_list m)) c = 1)"
  then have "filter (\<lambda>p. count_list (map snd (expanded_list m)) (snd p) \<noteq> 1) (expanded_list m) = []"
    by (auto simp: filter_empty_conv)
  with stratify_samples_after_singles [of m tts heads n seed test val] a
  show "stratify_samples tts heads n m seed test val = Inr (([], [], Some []), n)"
    by auto
qed

theorem stratify_samples_degenerate_witness:
  "expanded_list ([] :: string idx_to_classes) = [] \<and>
   stratify_samples (\<lambda>X y test_size seed st. Inl ValueError) (\<lambda>k. True) 0
     ([] :: string idx_to_classes) 0 (1 / 5) (1 / 10) = Inl ValueError \<and>
   expanded_list [(0, [''a'']), (1, [''b''])] \<noteq> [] \<and>
   stratify_samples (\<lambda>X y test_size seed st. Inl ValueError) (\<lambda>k. True) 0
     [(0, [''a'']), (1, [''b''])] 0 0 (1 / 10) = Inr (([], [], Some []), 0)"
proof -
  have e: "expanded_list ([] :: string idx_to_classes) = []"
    by (simp add: expanded_list_def)
  have n: "expanded_list [(0, [''a'']), (1, [''b''])] \<noteq> [] \<and>
           (\<forall>c \<in> set (map snd (expanded_list [(0, [''a'']), (1, [''b''])])).
              count_list (map snd (expanded_list [(0, [''a'']), (1, [''b''])])) c = 1)"
    by (simp add: expanded_list_def)
  show ?thesis
    using e n
      stratify_samples_degenerate [of "[] :: string idx_to_classes"
        "\<lambda>X y test_size seed st. Inl ValueError" "\<lambda>k. True" 0 0 "1 / 5" "1 / 10"]
      stratify_samples_degenerate [of "[(0, [''a'']), (1, [''b''])]"
        "\<lambda>X y test_size seed st. Inl ValueError" "\<lambda>k. True" 0 0 0 "1 / 10"]
    by blast
qed

subsection \<open>Singleton labels\<close>

text \<open>
  The lists returned for validation and test hold only images of the rows that are left
  after the singleton rows have been taken out.
\<close>

lemma stratify_samples_val_test_repeated:
  fixes m :: "'l::linorder idx_to_classes"
  assumes tts: "\<And>X y ts sd st a b c d.
                  tts X y ts sd st = Inr (a, b, c, d) \<Longrightarrow> set a \<subseteq> set X \<and> set b \<subseteq> set X"
    and res: "stratify_samples tts heads n m seed test val = Inr ((train, v, t), n')"
  shows "set v \<subseteq> set (repeated_images m) \<and>
         (\<forall>te. t = Some te \<longrightarrow> set te \<subseteq> set (repeated_images m))"
proof -
  let ?rows = "expanded_list m"
  let ?rest = "filter (\<lambda>p. count_list (map snd ?rows) (snd p) \<noteq> 1) ?rows"
  have ne: "?rows \<noteq> []" using res by (auto simp: stratify_samples_def)
  have rep: "set (map fst ?rest) = set (repeated_images m)"
    by (simp add: repeated_images_def Let_def)
  from stratify_samples_after_singles [OF ne, of tts heads n seed test val] obtain sf where
    eq: "stratify_samples tts heads n m seed test val =
     (if ?rest = [] then Inr (([], [], Some []), n)
      else
        case tts (map fst ?rest) (map snd ?rest)
               (real_of_int (py_int ((val + test) * 100)) / 100) seed (map snd ?rest) of
          Inl e \<Rightarrow> Inl e
        | Inr (x_train, x_tmp, y_train, y_tmp) \<Rightarrow>
            (case remove_cross_contamination heads n x_train x_tmp y_train y_tmp of
               Inl e \<Rightarrow> Inl e
             | Inr s \<Rightarrow>
                 if test = 0 then
                   Inr ((list_of_set (X_a s @ sf), list_of_set (X_b s), None), draws s)
                 else if val + test = 0 then Inl ZeroDivisionError
                 else
                   case tts (X_b s) (y_b s) ((test * 100 / (val + test)) / 100) seed (y_b s) of
                     Inl e \<Rightarrow> Inl e
                   | Inr (x_val, x_test, y_val, y_test) \<Rightarrow>
                       (case remove_cross_contamination heads (draws s) x_val x_test y_val y_test of
                          Inl e \<Rightarrow> Inl e
                        | Inr s' \<Rightarrow>
                            Inr ((list_of_set (X_a s @ sf), list_of_set (X_a s'),
                                  Some (list_of_set (X_b s'))), draws s'))))"
    by blast
  show ?thesis
  proof (cases "?rest = []")
    case True
    with res eq show ?thesis by auto
  next
    case False
    with res eq obtain a b c d s where
      first: "tts (map fst ?rest) (map snd ?rest)
                (real_of_int (py_int ((val + test) * 100)) / 100) seed (map snd ?rest) =
              Inr (a, b, c, d)"
      and rcc1: "remove_cross_contamination heads n a b c d = Inr s"
      by (auto split: sum.splits prod.splits)
    from tts [OF first] rep have b: "set b \<subseteq> set (repeated_images m)" by auto
    from remove_cross_contamination_sets [OF rcc1] b
    have tmp: "set (X_b s) \<subseteq> set (repeated_images m)" by auto
    show ?thesis
    proof (cases "test = 0")
      case True
      with res eq \<open>?rest \<noteq> []\<close> first rcc1 tmp show ?thesis
        by (auto simp: set_list_of_set)
    next
      case nz: False
      with res eq \<open>?rest \<noteq> []\<close> first rcc1 obtain a' b' c' d' s' where
        second: "tts (X_b s) (y_b s) ((test * 100 / (val + test)) / 100) seed (y_b s) =
                 Inr (a', b', c', d')"
        and rcc2: "remove_cross_contamination heads (draws s) a' b' c' d' = Inr s'"
        and out: "v = list_of_set (X_a s')" "t = Some (list_of_set (X_b s'))"
        by (auto split: sum.splits prod.splits if_splits)
      from tts [OF second] have ab': "set a' \<subseteq> set (X_b s)" "set b' \<subseteq> set (X_b s)" by auto
      from remove_cross_contamination_sets [OF rcc2]
      have s': "set (X_a s') \<subseteq> set a'" "set (X_b s') \<subseteq> set b'" by simp_all
      show ?thesis using out tmp ab' s' by (auto simp: set_list_of_set)
    qed
  qed
qed

text \<open>
  The claim C3 as stated fails in both halves. When every label is a singleton the
  function returns three empty lists, so image 0, which carries the singleton label \<open>a\<close>,
  is not in the returned train list. And for the mapping \<open>{0: {a, b}, 1: {b}}\<close>, when
  \<open>train_test_split\<close> puts the row \<open>(0, b)\<close> in the validation part, image 0, which carries
  the singleton label \<open>a\<close>, is in the returned validation list.
\<close>

theorem stratify_samples_singleton_images_misplaced:
  "singleton_images [(0, [''a''])] = [0] \<and>
   stratify_samples (\<lambda>X y test_size seed st. Inl ValueError) (\<lambda>k. True) 0
     [(0, [''a''])] 0 (1 / 5) (1 / 10) = Inr (([], [], Some []), 0) \<and>
   singleton_images [(0, [''a'', ''b'']), (1, [''b''])] = [0] \<and>
   stratify_samples
     (\<lambda>X y test_size seed st.
        if X = [0, 1] \<and> y = [''b'', ''b''] \<and> test_size = 1 / 2
        then Inr ([1], [0], [''b''], [''b'']) else Inl ValueError)
     (\<lambda>k. True) 0 [(0, [''a'', ''b'']), (1, [''b''])] 0 0 (1 / 2) =
     Inr (([0, 1], [0], None), 0)"
  by (simp add: stratify_eval)

text \<open>
  Claim C3, amended. Whenever \<open>_stratify_samples\<close> returns for an input in which at least
  one label has a support count other than 1, every image index that carries a label of
  support count exactly 1 appears in the returned train list. Whenever it returns, for a
  \<open>train_test_split\<close> that returns elements of its input, every image index that carries
  labels of support count exactly 1 only never appears in the returned val or test list.
\<close>

theorem stratify_samples_singletons_placed:
  fixes m :: "'l::linorder idx_to_classes"
  assumes "stratify_samples tts heads n m seed test val =
             Inr ((train, val_indices, test_indices), n')"
  shows "((\<exists>c \<in> set (map snd (expanded_list m)).
             count_list (map snd (expanded_list m)) c \<noteq> 1) \<longrightarrow>
            set (singleton_images m) \<subseteq> set train) \<and>
         ((\<forall>X y ts sd st a b c d.
             tts X y ts sd st = Inr (a, b, c, d) \<longrightarrow> set a \<subseteq> set X \<and> set b \<subseteq> set X) \<longrightarrow>
          (\<forall>k. k \<in> set (singleton_images m) \<and> k \<notin> set (repeated_images m) \<longrightarrow>
                k \<notin> set val_indices \<and> (\<forall>te. test_indices = Some te \<longrightarrow> k \<notin> set te)))"
proof (intro conjI impI)
  assume some: "\<exists>c \<in> set (map snd (expanded_list m)).
                  count_list (map snd (expanded_list m)) c \<noteq> 1"
  let ?rows = "expanded_list m"
  let ?rest = "filter (\<lambda>p. count_list (map snd ?rows) (snd p) \<noteq> 1) ?rows"
  from some have ne: "?rows \<noteq> []" by auto
  from some have rest: "?rest \<noteq> []" by (auto simp: filter_empty_conv)
  from stratify_samples_after_singles [OF ne, of tts heads n seed test val] obtain sf where
    sf: "set sf = set (singleton_images m)" and
    eq: "stratify_samples tts heads n m seed test val =
     (case tts (map fst ?rest) (map snd ?rest)
               (real_of_int (py_int ((val + test) * 100)) / 100) seed (map snd ?rest) of
          Inl e \<Rightarrow> Inl e
        | Inr (x_train, x_tmp, y_train, y_tmp) \<Rightarrow>
            (case remove_cross_contamination heads n x_train x_tmp y_train y_tmp of
               Inl e \<Rightarrow> Inl e
             | Inr s \<Rightarrow>
                 if test = 0 then
                   Inr ((list_of_set (X_a s @ sf), list_of_set (X_b s), None), draws s)
                 else if val + test = 0 then Inl ZeroDivisionError
                 else
                   case tts (X_b s) (y_b s) ((test * 100 / (val + test)) / 100) seed (y_b s) of
                     Inl e \<Rightarrow> Inl e
                   | Inr (x_val, x_test, y_val, y_test) \<Rightarrow>
                       (case remove_cross_contamination heads (draws s) x_val x_test y_val y_test of
                          Inl e \<Rightarrow> Inl e
                        | Inr s' \<Rightarrow>
                            Inr ((list_of_set (X_a s @ sf), list_of_set (X_a s'),
                                  Some (list_of_set (X_b s'))), draws s'))))"
    using rest by auto
  from assms [unfolded eq] have "set sf \<subseteq> set train"
    by (auto simp: set_list_of_set split: sum.splits prod.splits if_splits)
  then show "set (singleton_images m) \<subseteq> set train" using sf by simp
next
  assume tts: "\<forall>X y ts sd st a b c d.
                 tts X y ts sd st = Inr (a, b, c, d) \<longrightarrow> set a \<subseteq> set X \<and> set b \<subseteq> set X"
  have vt: "set val_indices \<subseteq> set (repeated_images m) \<and>
            (\<forall>te. test_indices = Some te \<longrightarrow> set te \<subseteq> set (repeated_images m))"
  proof (rule stratify_samples_val_test_repeated)
    show "\<And>X y ts sd st a b c d.
            tts X y ts sd st = Inr (a, b, c, d) \<Longrightarrow> set a \<subseteq> set X \<and> set b \<subseteq> set X"
      using tts by blast
    show "stratify_samples tts heads n m seed test val =
            Inr ((train, val_indices, test_indices), n')"
      by (rule assms)
  qed
  then show "\<forall>k. k \<in> set (singleton_images m) \<and> k \<notin> set (repeated_images m) \<longrightarrow>
             k \<notin> set val_indices \<and> (\<forall>te. test_indices = Some te \<longrightarrow> k \<notin> set te)"
    by blast
qed

theorem stratify_samples_singletons_placed_witness:
  "stratify_samples
     (\<lambda>X y test_size seed st. Inr (take 1 X, drop 1 X, take 1 y, drop 1 y))
     (\<lambda>k. True) 0 [(0, [''a'']), (1, [''b'']), (2, [''b''])] 0 0 (1 / 2) =
     Inr (([0, 1], [2], None), 0) \<and>
   count_list (map snd (expanded_list [(0 :: int, [''a'']), (1, [''b'']), (2, [''b''])])) ''b'' \<noteq> 1 \<and>
   singleton_images [(0, [''a'']), (1, [''b'']), (2, [''b''])] = [0] \<and>
   repeated_images [(0, [''a'']), (1, [''b'']), (2, [''b''])] = [1, 2] \<and>
   set (singleton_images [(0, [''a'']), (1, [''b'']), (2, [''b''])]) \<subseteq> set [0, 1] \<and>
   0 \<notin> set [2 :: int]"
proof -
  let ?m = "[(0 :: int, [''a'']), (1, [''b'']), (2, [''b''])]"
  let ?tts = "\<lambda>(X :: int list) (y :: string list) (test_size :: real) (seed :: int)
                 (st :: string list).
                (Inr (take 1 X, drop 1 X, take 1 y, drop 1 y)
                   :: error + int list \<times> int list \<times> string list \<times> string list)"
  have r: "stratify_samples ?tts (\<lambda>k. True) 0 ?m 0 0 (1 / 2) = Inr (([0, 1], [2], None), 0)"
    by (simp add: stratify_eval)
  have c: "count_list (map snd (expanded_list ?m)) ''b'' \<noteq> 1"
    by (simp add: expanded_list_def)
  then have ex: "\<exists>c \<in> set (map snd (expanded_list ?m)). count_list (map snd (expanded_list ?m)) c \<noteq> 1"
    by (intro bexI [of _ "''b''"]) (simp_all add: expanded_list_def)
  have sound: "\<forall>X y ts sd st a b c d.
                 ?tts X y ts sd st = Inr (a, b, c, d) \<longrightarrow> set a \<subseteq> set X \<and> set b \<subseteq> set X"
    by (auto dest: in_set_takeD in_set_dropD)
  have s: "singleton_images ?m = [0]"
    by (simp add: singleton_images_def expanded_list_def)
  have p: "repeated_images ?m = [1, 2]"
    by (simp add: repeated_images_def expanded_list_def)
  have k: "(0::int) \<in> set (singleton_images ?m) \<and> 0 \<notin> set (repeated_images ?m)"
    by (simp add: s p)
  from stratify_samples_singletons_placed [OF r] ex sound k
  have "set (singleton_images ?m) \<subseteq> set [0, 1]" "(0::int) \<notin> set [2]"
    by blast+
  with r c s p show ?thesis by blast
qed

subsection \<open>Disjointness of the three lists\<close>

text \<open>
  The three lists are pairwise disjoint whenever no image carries both a singleton label
  and a repeated one, for any \<open>train_test_split\<close> that returns elements of its input.
\<close>

lemma stratify_samples_disjoint_without_mixed_images:
  fixes m :: "'l::linorder idx_to_classes"
  assumes tts: "\<And>X y ts sd st a b c d.
                  tts X y ts sd st = Inr (a, b, c, d) \<Longrightarrow> set a \<subseteq> set X \<and> set b \<subseteq> set X"
    and nomix: "set (singleton_images m) \<inter> set (repeated_images m) = {}"
    and res: "stratify_samples tts heads n m seed test val = Inr ((train, v, t), n')"
  shows "set train \<inter> set v = {} \<and>
         (\<forall>te. t = Some te \<longrightarrow> set v \<inter> set te = {} \<and> set train \<inter> set te = {})"
proof -
  let ?rows = "expanded_list m"
  let ?rest = "filter (\<lambda>p. count_list (map snd ?rows) (snd p) \<noteq> 1) ?rows"
  have ne: "?rows \<noteq> []" using res by (auto simp: stratify_samples_def)
  have rep: "set (map fst ?rest) = set (repeated_images m)"
    by (simp add: repeated_images_def Let_def)
  from stratify_samples_after_singles [OF ne, of tts heads n seed test val] obtain sf where
    sf: "set sf = set (singleton_images m)" and
    eq: "stratify_samples tts heads n m seed test val =
     (if ?rest = [] then Inr (([], [], Some []), n)
      else
        case tts (map fst ?rest) (map snd ?rest)
               (real_of_int (py_int ((val + test) * 100)) / 100) seed (map snd ?rest) of
          Inl e \<Rightarrow> Inl e
        | Inr (x_train, x_tmp, y_train, y_tmp) \<Rightarrow>
            (case remove_cross_contamination heads n x_train x_tmp y_train y_tmp of
               Inl e \<Rightarrow> Inl e
             | Inr s \<Rightarrow>
                 if test = 0 then
                   Inr ((list_of_set (X_a s @ sf), list_of_set (X_b s), None), draws s)
                 else if val + test = 0 then Inl ZeroDivisionError
                 else
                   case tts (X_b s) (y_b s) ((test * 100 / (val + test)) / 100) seed (y_b s) of
                     Inl e \<Rightarrow> Inl e
                   | Inr (x_val, x_test, y_val, y_test) \<Rightarrow>
                       (case remove_cross_contamination heads (draws s) x_val x_test y_val y_test of
                          Inl e \<Rightarrow> Inl e
                        | Inr s' \<Rightarrow>
                            Inr ((list_of_set (X_a s @ sf), list_of_set (X_a s'),
                                  Some (list_of_set (X_b s'))), draws s'))))"
    by blast
  show ?thesis
  proof (cases "?rest = []")
    case True
    with res eq show ?thesis by simp
  next
    case False
    with res eq obtain a b c d s where
      first: "tts (map fst ?rest) (map snd ?rest)
                (real_of_int (py_int ((val + test) * 100)) / 100) seed (map snd ?rest) =
              Inr (a, b, c, d)"
      and rcc1: "remove_cross_contamination heads n a b c d = Inr s"
      by (auto split: sum.splits prod.splits)
    from tts [OF first] rep have ab: "set a \<subseteq> set (repeated_images m)" "set b \<subseteq> set (repeated_images m)"
      by auto
    from remove_cross_contamination_sets [OF rcc1]
    have s: "set (X_a s) \<subseteq> set a" "set (X_b s) \<subseteq> set b" "set (X_a s) \<inter> set (X_b s) = {}"
      by simp_all
    have tmp: "set (X_a s @ sf) \<inter> set (X_b s) = {}"
      using s ab sf nomix by auto
    show ?thesis
    proof (cases "test = 0")
      case True
      with res eq \<open>?rest \<noteq> []\<close> first rcc1 tmp show ?thesis
        by (auto simp: set_list_of_set)
    next
      case nz: False
      with res eq \<open>?rest \<noteq> []\<close> first rcc1 obtain a' b' c' d' s' where
        second: "tts (X_b s) (y_b s) ((test * 100 / (val + test)) / 100) seed (y_b s) =
                 Inr (a', b', c', d')"
        and rcc2: "remove_cross_contamination heads (draws s) a' b' c' d' = Inr s'"
        and out: "train = list_of_set (X_a s @ sf)" "v = list_of_set (X_a s')"
                 "t = Some (list_of_set (X_b s'))"
        by (auto split: sum.splits prod.splits if_splits)
      from tts [OF second] have ab': "set a' \<subseteq> set (X_b s)" "set b' \<subseteq> set (X_b s)" by auto
      from remove_cross_contamination_sets [OF rcc2]
      have s': "set (X_a s') \<subseteq> set a'" "set (X_b s') \<subseteq> set b'"
        "set (X_a s') \<inter> set (X_b s') = {}"
        by simp_all
      show ?thesis using out tmp ab' s' by (auto simp: set_list_of_set)
    qed
  qed
qed

text \<open>
  Claim C1. The claim says that the returned lists are pairwise disjoint. The images of
  singleton labels are appended to the train list after the repair of cross contamination,
  and an image that carries a singleton label may carry a repeated label as well. For the
  mapping \<open>{0: {a, b}, 1: {b, c}}\<close> with 50 percent validation and no test split, the rows
  left for \<open>train_test_split\<close> are \<open>(0, b)\<close> and \<open>(1, b)\<close>; it puts one of them on each
  side. Whichever it puts in the validation part, that image is in the returned train
  list too, since both images carry a singleton label.
\<close>

theorem stratify_samples_singleton_image_in_train_and_val:
  "stratify_samples
     (\<lambda>X y test_size seed st.
        if X = [0, 1] \<and> y = [''b'', ''b''] \<and> test_size = 1 / 2
        then Inr ([0], [1], [''b''], [''b'']) else Inl ValueError)
     (\<lambda>k. True) 0 [(0, [''a'', ''b'']), (1, [''b'', ''c''])] 0 0 (1 / 2) =
     Inr (([0, 1], [1], None), 0) \<and>
   stratify_samples
     (\<lambda>X y test_size seed st.
        if X = [0, 1] \<and> y = [''b'', ''b''] \<and> test_size = 1 / 2
        then Inr ([1], [0], [''b''], [''b'']) else Inl ValueError)
     (\<lambda>k. True) 0 [(0, [''a'', ''b'']), (1, [''b'', ''c''])] 0 0 (1 / 2) =
     Inr (([0, 1], [0], None), 0)"
  by (simp add: stratify_eval)

section \<open>The split orchestrator\<close>

lemmas fs_defs = split_dataset_def path_exists_def is_dir_def makedirs_def check_parameters_def
  split_id_def py_int_def str_int_def str_nat.simps splits_of_def update_default_split_def
  unlink_def symlink_to_def

subsection \<open>Reuse of an existing split\<close>

lemma split_dataset_force_resplit_irrelevant:
  "split_dataset tts heads permutation dataset val test True seed make_default_split s =
   split_dataset tts heads permutation dataset val test False seed make_default_split s"
  by (simp add: split_dataset_def)

text \<open>
  Claim C6. The claim says that \<open>force_resplit=True\<close> discards an existing split and
  produces a new one. The body of \<open>split_dataset\<close> never reads \<open>force_resplit\<close>: with the
  split directory present and \<open>force_resplit=True\<close> the call succeeds, the list written by
  the earlier split is still there unchanged, and no new list is written.
\<close>

theorem split_dataset_force_resplit_keeps_old_split:
  "fst (split_dataset (\<lambda>X y ts seed st. Inl ValueError) (\<lambda>k. True) (\<lambda>seed n. map int [0..<n])
          (Some (PathLike [''d''])) (Some (1 / 10)) (Some (2 / 10)) True (Some 0) True
          dataset_with_split) =
     Inr (splits_of [''d'', ''lists'', ''split_v10_t20''] (2 / 10)) \<and>
   nodes (snd (split_dataset (\<lambda>X y ts seed st. Inl ValueError) (\<lambda>k. True)
                 (\<lambda>seed n. map int [0..<n])
                 (Some (PathLike [''d''])) (Some (1 / 10)) (Some (2 / 10)) True (Some 0) True
                 dataset_with_split))
     [''d'', ''lists'', ''split_v10_t20'', ''random_train.txt''] =
     Some (File [''old'' @ [CHR 0x0A]]) \<and>
   nodes (snd (split_dataset (\<lambda>X y ts seed st. Inl ValueError) (\<lambda>k. True)
                 (\<lambda>seed n. map int [0..<n])
                 (Some (PathLike [''d''])) (Some (1 / 10)) (Some (2 / 10)) True (Some 0) True
                 dataset_with_split))
     [''d'', ''lists'', ''split_v10_t20'', ''random_val.txt''] = None"
  by (simp add: fs_defs dataset_with_split_def Let_def)

subsection \<open>Validation of the parameters\<close>

text \<open>
  The claim C7 as stated fails: with \<open>val_percentage = 0\<close> on a dataset without a \<open>lists\<close>
  directory the call raises \<open>ValueError\<close>, and the directory \<open>lists\<close> has been created by
  then.
\<close>

theorem split_dataset_creates_lists_before_validation:
  "nodes fresh_dataset [''d'', ''lists''] = None \<and>
   fst (split_dataset (\<lambda>X y ts seed st. Inl ValueError) (\<lambda>k. True) (\<lambda>seed n. map int [0..<n])
          (Some (PathLike [''d''])) (Some 0) (Some (2 / 10)) False (Some 0) True
          fresh_dataset) = Inl ValueError \<and>
   nodes (snd (split_dataset (\<lambda>X y ts seed st. Inl ValueError) (\<lambda>k. True)
                 (\<lambda>seed n. map int [0..<n])
                 (Some (PathLike [''d''])) (Some 0) (Some (2 / 10)) False (Some 0) True
                 fresh_dataset))
     [''d'', ''lists''] = Some Dir"
  by (simp add: fs_defs fresh_dataset_def Let_def)

lemma make_dirs_frame:
  "make_dirs qs s = Inr s' \<Longrightarrow>
   json_files s' = json_files s \<and>
   (\<forall>p. nodes s p \<noteq> None \<longrightarrow> nodes s' p = nodes s p) \<and>
   (\<forall>p. nodes s' p \<noteq> nodes s p \<longrightarrow> nodes s' p = Some Dir \<and> p \<in> set qs)"
proof (induction qs arbitrary: s)
  case Nil
  then show ?case by simp
next
  case (Cons q qs)
  show ?case
  proof (cases "is_dir s q")
    case True
    with Cons.prems have "make_dirs qs s = Inr s'" by simp
    from Cons.IH [OF this] show ?thesis by auto
  next
    case False
    with Cons.prems have none: "nodes s q = None"
      and rest: "make_dirs qs (s\<lparr>nodes := (nodes s)(q \<mapsto> Dir)\<rparr>) = Inr s'"
      by (auto split: if_splits)
    from Cons.IH [OF rest] none show ?thesis
      by (auto split: if_splits)
  qed
qed

lemma check_parameters_invalid:
  assumes "val = None \<or> (\<exists>v. val = Some v \<and> \<not> (0 < v \<and> v < 1)) \<or>
           test = None \<or> (\<exists>t. test = Some t \<and> \<not> (0 \<le> t \<and> t < 1)) \<or>
           (\<exists>v t. val = Some v \<and> test = Some t \<and> \<not> v + t < 1) \<or> seed = None"
  shows "check_parameters val test seed = Inl ValueError"
  using assms by (auto simp: check_parameters_def split: option.splits)

text \<open>
  Claim C7, amended. For every invalid configuration (a validation percentage that is
  absent or not strictly between 0 and 1, a test percentage that is absent or not in
  \<open>[0, 1)\<close>, a sum that is not below 1, or an absent seed), on a dataset whose
  \<open>annotations\<close> directory exists and whose \<open>lists\<close> directory exists or can be created,
  \<open>split_dataset\<close> raises \<open>ValueError\<close> right after \<open>lists_path.mkdir\<close>: the state it leaves
  is the one after that call, in which every node that existed is unchanged and the only
  new nodes are directories on the way to \<open>lists\<close>. No split directory, list file or
  default-split link is created.
\<close>

theorem split_dataset_invalid_configuration:
  assumes "val = None \<or> (\<exists>v. val = Some v \<and> \<not> (0 < v \<and> v < 1)) \<or>
           test = None \<or> (\<exists>t. test = Some t \<and> \<not> (0 \<le> t \<and> t < 1)) \<or>
           (\<exists>v t. val = Some v \<and> test = Some t \<and> \<not> v + t < 1) \<or> seed = None"
    and "path_exists s (dataset_path d @ [''annotations''])"
    and "makedirs (dataset_path d @ [''lists'']) s = Inr s1"
  shows "split_dataset tts heads permutation (Some d) val test force_resplit seed
           make_default_split s = (Inl ValueError, s1) \<and>
         json_files s1 = json_files s \<and>
         (\<forall>p. nodes s p \<noteq> None \<longrightarrow> nodes s1 p = nodes s p) \<and>
         (\<forall>p. nodes s1 p \<noteq> nodes s p \<longrightarrow>
              nodes s1 p = Some Dir \<and> prefix p (dataset_path d @ [''lists'']))"
proof -
  have res: "split_dataset tts heads permutation (Some d) val test force_resplit seed
               make_default_split s = (Inl ValueError, s1)"
    using assms(2,3) check_parameters_invalid [OF assms(1)]
    by (simp add: split_dataset_def Let_def)
  note frame = make_dirs_frame [OF assms(3) [unfolded makedirs_def]]
  have pre: "prefix p (dataset_path d @ [''lists''])"
    if "p \<in> set (map (\<lambda>k. take k (dataset_path d @ [''lists'']))
                   [1..<Suc (length (dataset_path d @ [''lists'']))])" for p
    using that by (auto simp: take_is_prefix)
  show ?thesis using res frame pre by blast
qed

theorem split_dataset_invalid_configuration_witness:
  "path_exists fresh_dataset (dataset_path (PathLike [''d'']) @ [''annotations'']) \<and>
   (\<exists>s1. makedirs (dataset_path (PathLike [''d'']) @ [''lists'']) fresh_dataset = Inr s1 \<and>
         split_dataset (\<lambda>X y ts seed st. Inl ValueError) (\<lambda>k. True) (\<lambda>seed n. map int [0..<n])
           (Some (PathLike [''d''])) (Some (1 / 2)) (Some (1 / 2)) False (Some 0) True
           fresh_dataset = (Inl ValueError, s1) \<and>
         nodes s1 [''d'', ''lists''] = Some Dir \<and>
         nodes s1 [''d'', ''annotations''] = Some Dir \<and>
         nodes s1 [''d'', ''lists'', ''split_v50_t50''] = None \<and>
         nodes s1 [''d'', ''lists'', ''split''] = None)"
proof -
  let ?s1 = "fresh_dataset\<lparr>nodes := (nodes fresh_dataset)([''d'', ''lists''] \<mapsto> Dir)\<rparr>"
  have inv: "Some (1 / 2 :: real) = None \<or>
             (\<exists>v. Some (1 / 2 :: real) = Some v \<and> \<not> (0 < v \<and> v < 1)) \<or>
             Some (1 / 2 :: real) = None \<or>
             (\<exists>t. Some (1 / 2 :: real) = Some t \<and> \<not> (0 \<le> t \<and> t < 1)) \<or>
             (\<exists>v t. Some (1 / 2 :: real) = Some v \<and> Some (1 / 2 :: real) = Some t \<and>
                    \<not> v + t < 1) \<or>
             Some (0 :: int) = None"
  proof -
    have "\<not> (1 / 2 + 1 / 2 :: real) < 1" by simp
    then show ?thesis by blast
  qed
  have ann: "path_exists fresh_dataset (dataset_path (PathLike [''d'']) @ [''annotations''])"
    by (simp add: path_exists_def fresh_dataset_def)
  have mk: "makedirs (dataset_path (PathLike [''d'']) @ [''lists'']) fresh_dataset = Inr ?s1"
    by (simp add: makedirs_def is_dir_def fresh_dataset_def)
  from split_dataset_invalid_configuration [OF inv ann mk]
  have "split_dataset (\<lambda>X y ts seed st. Inl ValueError) (\<lambda>k. True) (\<lambda>seed n. map int [0..<n])
          (Some (PathLike [''d''])) (Some (1 / 2)) (Some (1 / 2)) False (Some 0) True
          fresh_dataset = (Inl ValueError, ?s1)"
    by blast
  moreover have "nodes ?s1 [''d'', ''lists''] = Some Dir"
    "nodes ?s1 [''d'', ''annotations''] = Some Dir"
    "nodes ?s1 [''d'', ''lists'', ''split_v50_t50''] = None"
    "nodes ?s1 [''d'', ''lists'', ''split''] = None"
    by (simp_all add: fresh_dataset_def)
  ultimately show ?thesis using ann mk by blast
qed

subsection \<open>The split identity\<close>

lemma split_id_suffix_independent_of_seed:
  "seed \<noteq> 0 \<Longrightarrow> split_id v t seed = split_id v t 0 @ ''_s{split_seed}''"
  by (simp add: split_id_def Let_def)

text \<open>
  Claim C8. The claim says that for a seed other than 0 the identity ends with \<open>_s\<close> and
  the decimal value of the seed. The source appends the string literal
  \<open>"_s{split_seed}"\<close>, which is not an f-string: for 10 percent validation, 20 percent test
  and seed 42 the identity is \<open>split_v10_t20_s{split_seed}\<close>, not \<open>split_v10_t20_s42\<close>.
\<close>

theorem split_id_seed_suffix_is_literal:
  "split_id (1 / 10) (2 / 10) 42 = ''split_v10_t20_s{split_seed}'' \<and>
   split_id (1 / 10) (2 / 10) 42 \<noteq> ''split_v10_t20_s42'' \<and>
   split_id (1 / 10) (2 / 10) 0 = ''split_v10_t20''"
  by (simp add: split_id_def py_int_def str_int_def str_nat.simps)

subsection \<open>Floating-point products\<close>

text \<open>
  The number of binary digits, and with it the binary exponent, brackets its argument
  between two neighbouring powers of 2.
\<close>

lemma bit_length_le: "n < 2 ^ k \<Longrightarrow> bit_length n \<le> k"
proof (induction k arbitrary: n)
  case 0
  then show ?case by (simp add: bit_length.simps)
next
  case (Suc k)
  show ?case
  proof (cases "n = 0")
    case True
    then show ?thesis by (simp add: bit_length.simps)
  next
    case False
    from Suc.prems have "n div 2 < 2 ^ k" by simp
    from Suc.IH [OF this] False show ?thesis
      by (subst bit_length.simps) simp
  qed
qed

lemma bit_length_bracket: "0 < n \<Longrightarrow> 2 ^ (bit_length n - 1) \<le> n \<and> n < 2 ^ bit_length n"
proof (induction n rule: bit_length.induct)
  case (1 n)
  show ?case
  proof (cases "n div 2 = 0")
    case True
    with "1.prems" have "n = 1" by (simp add: div_eq_0_iff)
    then show ?thesis by (simp add: bit_length.simps)
  next
    case False
    with "1.IH" "1.prems" have ih: "2 ^ (bit_length (n div 2) - 1) \<le> n div 2"
      "n div 2 < 2 ^ bit_length (n div 2)"
      by simp_all
    have pos: "0 < bit_length (n div 2)" using False by (subst bit_length.simps) simp
    have bl: "bit_length n = Suc (bit_length (n div 2))"
      using "1.prems" by (subst bit_length.simps) simp
    have "2 ^ (bit_length n - 1) = 2 * 2 ^ (bit_length (n div 2) - 1)"
      using bl pos by (cases "bit_length (n div 2)") simp_all
    also have "\<dots> \<le> 2 * (n div 2)" using ih(1) by simp
    also have "\<dots> \<le> n" by simp
    finally have lo: "2 ^ (bit_length n - 1) \<le> n" .
    have "n < 2 * (n div 2) + 2" by presburger
    also have "\<dots> \<le> 2 * 2 ^ bit_length (n div 2)" using ih(2) by simp
    finally have "n < 2 ^ bit_length n" using bl by simp
    with lo show ?thesis by simp
  qed
qed

lemma bit_length_pos: "0 < n \<Longrightarrow> 0 < bit_length n"
  by (subst bit_length.simps) simp

lemma binary_exponent_bracket:
  assumes "0 < x"
  shows "2 powr real_of_int (binary_exponent x) \<le> x \<and>
         x < 2 powr real_of_int (binary_exponent x + 1)"
proof (cases "1 \<le> x")
  case True
  define n where "n = nat \<lfloor>x\<rfloor>"
  have n: "0 < n" "real n \<le> x" "x < real n + 1"
    using True by (simp_all add: n_def)
  from bit_length_bracket [OF n(1)] bit_length_pos [OF n(1)]
  have b: "2 ^ (bit_length n - 1) \<le> n" "n < 2 ^ bit_length n" "0 < bit_length n" by simp_all
  have e: "binary_exponent x = int (bit_length n) - 1"
    using True by (simp add: binary_exponent_def n_def)
  have p1: "2 powr real_of_int (binary_exponent x) = 2 ^ (bit_length n - 1)"
  proof -
    have "real_of_int (int (bit_length n) - 1) = real (bit_length n - 1)" using b(3) by simp
    then show ?thesis unfolding e by (simp only: powr_realpow [of 2, simplified])
  qed
  have p2: "2 powr real_of_int (binary_exponent x + 1) = 2 ^ bit_length n"
  proof -
    have "real_of_int (int (bit_length n) - 1 + 1) = real (bit_length n)" by simp
    then show ?thesis unfolding e by (simp only: powr_realpow [of 2, simplified])
  qed
  have c1: "(2::real) ^ (bit_length n - 1) = real (2 ^ (bit_length n - 1))" by simp
  have "real (2 ^ (bit_length n - 1)) \<le> real n" using b(1) by (simp only: of_nat_le_iff)
  then have lo: "(2::real) ^ (bit_length n - 1) \<le> x" using n(2) c1 by linarith
  have c2: "(2::real) ^ bit_length n = real (2 ^ bit_length n)" by simp
  have c3: "real (n + 1) = real n + 1" by simp
  have "n + 1 \<le> 2 ^ bit_length n" using b(2) by simp
  then have "real (n + 1) \<le> real (2 ^ bit_length n)" by (simp only: of_nat_le_iff)
  then have hi: "x < (2::real) ^ bit_length n" using n(3) c2 c3 by linarith
  show ?thesis unfolding p1 p2 using lo hi by simp
next
  case False
  with assms have inv: "1 < 1 / x" by simp
  define m where "m = nat \<lceil>1 / x\<rceil>"
  have m: "2 \<le> m" "1 / x \<le> real m" "real m - 1 < 1 / x"
  proof -
    have "real_of_int 1 < 1 / x" using inv by simp
    then have "1 < \<lceil>1 / x\<rceil>" by (simp only: less_ceiling_iff)
    then have c: "2 \<le> \<lceil>1 / x\<rceil>" by simp
    then have mi: "int m = \<lceil>1 / x\<rceil>" by (simp add: m_def)
    from c mi show "2 \<le> m" by linarith
    have "real m = real_of_int (int m)" by simp
    then have "real m = real_of_int \<lceil>1 / x\<rceil>" using mi by simp
    then show "1 / x \<le> real m" "real m - 1 < 1 / x" by linarith+
  qed
  define k where "k = bit_length (m - 1)"
  have pos: "0 < m - 1" using m(1) by simp
  from bit_length_bracket [OF pos] bit_length_pos [OF pos]
  have b: "2 ^ (k - 1) \<le> m - 1" "m - 1 < 2 ^ k" "0 < k" by (simp_all add: k_def)
  have e: "binary_exponent x = - int k"
    using False by (simp add: binary_exponent_def m_def k_def)
  have p1: "2 powr real_of_int (binary_exponent x) = 1 / 2 ^ k"
    unfolding e by (simp add: powr_minus powr_realpow inverse_eq_divide)
  have p2: "2 powr real_of_int (binary_exponent x + 1) = 1 / 2 ^ (k - 1)"
  proof -
    have "real_of_int (- int k + 1) = - real (k - 1)" using b(3) by simp
    then show ?thesis unfolding e
      by (simp only: powr_minus powr_realpow [of 2, simplified] inverse_eq_divide)
  qed
  have c1: "(2::real) ^ k = real (2 ^ k)" by simp
  have "m \<le> 2 ^ k" using b(2) by simp
  then have "real m \<le> real (2 ^ k)" by (simp only: of_nat_le_iff)
  then have "1 / x \<le> 2 ^ k" using m(2) c1 by linarith
  then have lo: "1 / 2 ^ k \<le> x" using assms by (simp add: field_simps)
  have c2: "(2::real) ^ (k - 1) = real (2 ^ (k - 1))" by simp
  have c3: "real (m - 1) = real m - 1" using m(1) by (simp add: of_nat_diff)
  have "real (2 ^ (k - 1)) \<le> real (m - 1)" using b(1) by (simp only: of_nat_le_iff)
  then have "(2::real) ^ (k - 1) < 1 / x" using m(3) c2 c3 by linarith
  then have hi: "x < 1 / 2 ^ (k - 1)" using assms by (simp add: field_simps)
  show ?thesis unfolding p1 p2 using lo hi by simp
qed

text \<open>
  Rounding to a double moves a number below \<open>2 ^ 52\<close> by at most a quarter, and leaves a
  natural number below \<open>2 ^ 52\<close> as it is. So the floating-point product of a dataset size
  and a fraction is within a quarter of the exact product.
\<close>

lemma round_half_even_error: "\<bar>real_of_int (round_half_even y) - y\<bar> \<le> 1 / 2"
  unfolding round_half_even_def by (auto split: if_splits)

lemma round_half_even_of_int: "round_half_even (real_of_int m) = m"
  by (simp add: round_half_even_def)

lemma ulp_pos: "0 < ulp x"
  by (simp add: ulp_def Let_def)

lemma binary_exponent_le:
  assumes "0 \<le> x" and "x < 2 ^ 52"
  shows "binary_exponent x \<le> 51"
proof (cases "1 \<le> x")
  case True
  have "nat \<lfloor>x\<rfloor> < 2 ^ 52"
  proof -
    have "\<lfloor>x\<rfloor> < 2 ^ 52" using assms(2) by (simp add: floor_less_iff)
    then show ?thesis using True by (simp add: nat_less_iff)
  qed
  from bit_length_le [OF this] True show ?thesis by (simp add: binary_exponent_def)
next
  case False
  then show ?thesis by (simp add: binary_exponent_def)
qed

lemma ulp_small:
  assumes "\<bar>x\<bar> < 2 ^ 52"
  shows "\<exists>j. 0 < j \<and> ulp x = 1 / 2 ^ j"
proof -
  from binary_exponent_le [of "\<bar>x\<bar>"] assms have e: "binary_exponent \<bar>x\<bar> - 52 < 0" by simp
  then have "ulp x = 1 / 2 ^ nat (- (binary_exponent \<bar>x\<bar> - 52))"
    by (simp add: ulp_def Let_def)
  moreover have "0 < nat (- (binary_exponent \<bar>x\<bar> - 52))" using e by simp
  ultimately show ?thesis by blast
qed

lemma ulp_le_half:
  assumes "\<bar>x\<bar> < 2 ^ 52"
  shows "ulp x \<le> 1 / 2"
proof -
  from ulp_small [OF assms] obtain j where j: "0 < j" "ulp x = 1 / 2 ^ j" by blast
  have "(1::real) / 2 ^ j \<le> 1 / 2 ^ 1"
    using j(1) by (intro divide_left_mono power_increasing) simp_all
  then show ?thesis using j(2) by simp
qed

lemma round_double_error:
  assumes "\<bar>x\<bar> < 2 ^ 52"
  shows "\<bar>round_double x - x\<bar> \<le> 1 / 4"
proof (cases "x = 0")
  case True
  then show ?thesis by (simp add: round_double_def)
next
  case False
  let ?u = "ulp x"
  have u: "0 < ?u" "?u \<le> 1 / 2" using ulp_pos ulp_le_half [OF assms] by simp_all
  have "\<bar>round_double x - x\<bar> = \<bar>real_of_int (round_half_even (x / ?u)) - x / ?u\<bar> * ?u"
  proof -
    have "round_double x - x = (real_of_int (round_half_even (x / ?u)) - x / ?u) * ?u"
      using False u(1) by (simp add: round_double_def field_simps)
    then show ?thesis using u(1) by (simp add: abs_mult)
  qed
  also have "\<dots> \<le> (1 / 2) * ?u"
    using round_half_even_error [of "x / ?u"] u(1) by (intro mult_right_mono) simp_all
  also have "\<dots> \<le> 1 / 4" using u(2) by simp
  finally show ?thesis .
qed

lemma round_double_of_nat:
  assumes "n < 2 ^ 52"
  shows "round_double (real n) = real n"
proof (cases "n = 0")
  case True
  then show ?thesis by (simp add: round_double_def)
next
  case False
  have "\<bar>real n\<bar> < 2 ^ 52"
  proof -
    have "real n < real (2 ^ 52)" using assms by (simp only: of_nat_less_iff)
    then show ?thesis by simp
  qed
  from ulp_small [OF this] obtain j where j: "ulp (real n) = 1 / 2 ^ j" by blast
  have "real n / ulp (real n) = real_of_int (int n * 2 ^ j)" using j by simp
  then have "round_half_even (real n / ulp (real n)) = int n * 2 ^ j"
    by (simp only: round_half_even_of_int)
  then show ?thesis using False j by (simp add: round_double_def)
qed

lemma float_mul_error:
  assumes "n < 2 ^ 52" and "0 \<le> x" and "x < 1"
  shows "\<bar>float_mul n x - real n * x\<bar> \<le> 1 / 4"
proof -
  have "real n * x \<le> real n * 1" using assms(2,3) by (intro mult_left_mono) simp_all
  moreover have "real n < real (2 ^ 52)" using assms(1) by (simp only: of_nat_less_iff)
  ultimately have "\<bar>real n * x\<bar> < 2 ^ 52" using assms(2) by simp
  from round_double_error [OF this] show ?thesis
    by (simp add: float_mul_def round_double_of_nat [OF assms(1)])
qed

lemma py_int_bounds:
  assumes "- 1 / 4 \<le> y"
  shows "0 \<le> py_int y" and "real_of_int (py_int y) \<le> y + 1 / 4"
proof -
  show "0 \<le> py_int y"
  proof (cases "0 \<le> y")
    case True
    then show ?thesis by (simp add: py_int_def)
  next
    case False
    with assms have "- 1 < y" by simp
    then have "0 \<le> \<lceil>y\<rceil>" by (simp add: le_ceiling_iff)
    with False show ?thesis by (simp add: py_int_def)
  qed
  show "real_of_int (py_int y) \<le> y + 1 / 4"
  proof (cases "0 \<le> y")
    case True
    then have "real_of_int (py_int y) \<le> y" by (simp add: py_int_def)
    then show ?thesis by simp
  next
    case False
    with assms have "- 1 < y" "y \<le> 0" by simp_all
    then have "\<lceil>y\<rceil> = 0" by (simp add: ceiling_eq_iff)
    with False assms show ?thesis by (simp add: py_int_def)
  qed
qed

lemma float_split_sizes_bound:
  fixes v t :: real
  assumes "n < 2 ^ 52" and "0 < v" and "v < 1" and "0 \<le> t" and "t < 1" and "v + t < 1"
  shows "0 \<le> py_int (float_mul n v)" and "0 \<le> py_int (float_mul n t)"
    and "py_int (float_mul n v) + py_int (float_mul n t) \<le> int n"
proof -
  from float_mul_error [OF assms(1), of v] assms(2,3)
  have ev: "\<bar>float_mul n v - real n * v\<bar> \<le> 1 / 4" by simp
  from float_mul_error [OF assms(1) assms(4,5)]
  have et: "\<bar>float_mul n t - real n * t\<bar> \<le> 1 / 4" .
  have nv: "0 \<le> real n * v" and nt: "0 \<le> real n * t" using assms(2,4) by simp_all
  have lv: "- 1 / 4 \<le> float_mul n v" using ev nv by linarith
  have lt: "- 1 / 4 \<le> float_mul n t" using et nt by linarith
  show "0 \<le> py_int (float_mul n v)" by (rule py_int_bounds(1) [OF lv])
  show "0 \<le> py_int (float_mul n t)" by (rule py_int_bounds(1) [OF lt])
  show "py_int (float_mul n v) + py_int (float_mul n t) \<le> int n"
  proof (cases "n = 0")
    case True
    then show ?thesis by (simp add: float_mul_def round_double_def py_int_def)
  next
    case False
    have uv: "float_mul n v \<le> real n * v + 1 / 4" using ev by linarith
    have ut: "float_mul n t \<le> real n * t + 1 / 4" using et by linarith
    have "real n * (v + t) < real n * 1"
      using False assms(6) by (intro mult_strict_left_mono) simp_all
    then have "real n * v + real n * t < real n" by (simp add: algebra_simps)
    with py_int_bounds(2) [OF lv] py_int_bounds(2) [OF lt] uv ut
    have "real_of_int (py_int (float_mul n v)) + real_of_int (py_int (float_mul n t))
            < real n + 1"
      by linarith
    then have "real_of_int (py_int (float_mul n v) + py_int (float_mul n t))
                 < real_of_int (int n + 1)"
      by simp
    then have "py_int (float_mul n v) + py_int (float_mul n t) < int n + 1"
      by (simp only: of_int_less_iff)
    then show ?thesis by simp
  qed
qed

lemma py_int_near:
  assumes "- 1 / 4 \<le> y"
  shows "y - 1 < real_of_int (py_int y)"
proof (cases "0 \<le> y")
  case True
  then show ?thesis by (simp add: py_int_def)
next
  case False
  with assms have "- 1 < y" "y \<le> 0" by simp_all
  then have "\<lceil>y\<rceil> = 0" by (simp add: ceiling_eq_iff)
  with False show ?thesis by (simp add: py_int_def)
qed

lemma float_size_near_floor:
  assumes "n < 2 ^ 52" and "0 \<le> x" and "x < 1"
  shows "\<bar>py_int (float_mul n x) - \<lfloor>real n * x\<rfloor>\<bar> \<le> 1"
proof -
  from float_mul_error [OF assms] have e: "\<bar>float_mul n x - real n * x\<bar> \<le> 1 / 4" .
  have nx: "0 \<le> real n * x" using assms(2) by simp
  have l: "- 1 / 4 \<le> float_mul n x" using e nx by linarith
  have up: "real_of_int (py_int (float_mul n x)) \<le> real n * x + 1 / 2"
    using py_int_bounds(2) [OF l] e by linarith
  have lo: "real n * x - 5 / 4 < real_of_int (py_int (float_mul n x))"
    using py_int_near [OF l] e by linarith
  have "py_int (float_mul n x) \<le> \<lfloor>real n * x\<rfloor> + 1"
  proof -
    have "real_of_int (py_int (float_mul n x)) < real_of_int (\<lfloor>real n * x\<rfloor> + 2)"
      using up by simp linarith
    then have "py_int (float_mul n x) < \<lfloor>real n * x\<rfloor> + 2" by (simp only: of_int_less_iff)
    then show ?thesis by simp
  qed
  moreover have "\<lfloor>real n * x\<rfloor> - 1 \<le> py_int (float_mul n x)"
  proof -
    have "real_of_int (\<lfloor>real n * x\<rfloor> - 2) < real_of_int (py_int (float_mul n x))"
      using lo by simp linarith
    then have "\<lfloor>real n * x\<rfloor> - 2 < py_int (float_mul n x)" by (simp only: of_int_less_iff)
    then show ?thesis by simp
  qed
  ultimately show ?thesis by simp
qed

lemmas float_eval = float_mul_def round_double_def ulp_def binary_exponent_def
  round_half_even_def bit_length.simps

subsection \<open>The random partitioner\<close>

lemma py_slice_prefix:
  "0 \<le> b \<Longrightarrow> b \<le> int (length xs) \<Longrightarrow> py_slice xs None (Some b) = take (nat b) xs"
  by (simp add: py_slice_def slice_bound_def Let_def)

lemma py_slice_middle:
  "0 \<le> a \<Longrightarrow> a \<le> b \<Longrightarrow> b \<le> int (length xs) \<Longrightarrow>
   py_slice xs (Some a) (Some b) = take (nat (b - a)) (drop (nat a) xs)"
  by (simp add: py_slice_def slice_bound_def Let_def)

lemma py_slice_suffix:
  "0 \<le> a \<Longrightarrow> a \<le> int (length xs) \<Longrightarrow> py_slice xs (Some a) None = drop (nat a) xs"
  by (simp add: py_slice_def slice_bound_def Let_def)

lemma three_runs:
  "k + a \<le> length xs \<Longrightarrow> take k xs @ take a (drop k xs) @ drop (k + a) xs = xs"
  by (metis append_assoc append_take_drop_id take_add)

text \<open>
  The claim C9 as stated fails in the sizes: \<open>len(val)\<close> is \<open>int\<close> of the floating-point
  product, not the floor of the exact one. For 50 images and \<open>val_percentage = 0.58\<close> the
  product is rounded to a double just below 29 and the validation list has 28 entries,
  where \<open>floor(50 * 0.58) = 29\<close>. For 10 images and \<open>val_percentage = 0.7\<close> the double
  nearest to 0.7 lies below 0.7, its exact product with 10 lies below 7 and has floor 6,
  but the product is rounded to the double 7 and the validation list has 7 entries.
\<close>

theorem random_split_sizes_not_exact_floors:
  "length (fst (snd (random_split (map int [0..<50]) 50
                       (round_double (58 / 100)) (round_double (2 / 10))))) = 28 \<and>
   \<lfloor>real 50 * (58 / 100)\<rfloor> = 29 \<and>
   length (fst (snd (random_split (map int [0..<10]) 10
                       (round_double (7 / 10)) (round_double (2 / 10))))) = 7 \<and>
   \<lfloor>real 10 * round_double (7 / 10)\<rfloor> = 6"
  by (simp add: random_split_def py_int_def py_slice_def slice_bound_def float_eval)

text \<open>
  Claim C9, amended. For a dataset of \<open>n\<close> images (below \<open>2 ^ 52\<close>), valid fractions and a
  permutation \<open>indices\<close> of \<open>range(n)\<close>, the random split cuts \<open>indices\<close> into three
  contiguous runs train, val and test with \<open>len(val) = int(n * val)\<close> and
  \<open>len(test) = int(n * test)\<close>, the products being the floating-point products the code
  computes; each of the two lengths differs from the floor of the exact product by at
  most one. Further \<open>len(train) = n - len(val) - len(test)\<close>, the lengths add up to \<open>n\<close>,
  the three sets are pairwise disjoint and their union is \<open>range(n)\<close>.
\<close>

theorem random_split_partition:
  assumes "n < 2 ^ 52"
    and "0 < v" and "v < 1" and "0 \<le> t" and "t < 1" and "v + t < 1"
    and "distinct indices" and "set indices = int ` {0..<n}"
  shows "case random_split indices n v t of
           (train, val, test) \<Rightarrow>
             train @ val @ test = indices \<and>
             int (length val) = py_int (float_mul n v) \<and>
             int (length test) = py_int (float_mul n t) \<and>
             \<bar>int (length val) - \<lfloor>real n * v\<rfloor>\<bar> \<le> 1 \<and>
             \<bar>int (length test) - \<lfloor>real n * t\<rfloor>\<bar> \<le> 1 \<and>
             length train = n - length val - length test \<and>
             length train + length val + length test = n \<and>
             set train \<inter> set val = {} \<and> set val \<inter> set test = {} \<and>
             set train \<inter> set test = {} \<and>
             set train \<union> set val \<union> set test = int ` {0..<n}"
proof -
  have len: "length indices = n"
  proof -
    have "length indices = card (set indices)" using assms(7) by (simp add: distinct_card)
    also have "\<dots> = card (int ` {0..<n})" using assms(8) by simp
    also have "\<dots> = n" by (simp add: card_image)
    finally show ?thesis .
  qed
  define a where "a = nat (py_int (float_mul n v))"
  define b where "b = nat (py_int (float_mul n t))"
  note bounds = float_split_sizes_bound [OF assms(1-6)]
  have a: "int a = py_int (float_mul n v)" and b: "int b = py_int (float_mul n t)"
    unfolding a_def b_def using bounds(1,2) by simp_all
  have ab: "a + b \<le> n" using bounds(3) a b by linarith
  have na: "\<bar>int a - \<lfloor>real n * v\<rfloor>\<bar> \<le> 1"
    using float_size_near_floor [OF assms(1), of v] assms(2,3) a by simp
  have nb: "\<bar>int b - \<lfloor>real n * t\<rfloor>\<bar> \<le> 1"
    using float_size_near_floor [OF assms(1) assms(4,5)] b by simp
  define k where "k = n - a - b"
  have k: "int k = int n - int a - int b" "k + a + b = n" using ab by (simp_all add: k_def)
  have kn: "k \<le> n" "k + a \<le> n" using k(2) by simp_all
  have tr: "py_slice indices None (Some (int k)) = take k indices"
    using py_slice_prefix [of "int k" indices] kn len by simp
  have va: "py_slice indices (Some (int k)) (Some (int k + int a)) = take a (drop k indices)"
    using py_slice_middle [of "int k" "int k + int a" indices] kn len by simp
  have te: "py_slice indices (Some (int k + int a)) None = drop (k + a) indices"
    using py_slice_suffix [of "int k + int a" indices] kn len by (simp add: nat_add_distrib)
  have rs: "random_split indices n v t =
              (take k indices, take a (drop k indices), drop (k + a) indices)"
    unfolding random_split_def Let_def a [symmetric] b [symmetric] using tr va te k(1) by simp
  have cat: "take k indices @ take a (drop k indices) @ drop (k + a) indices = indices"
    using three_runs [of k a indices] k len by simp
  have dist: "distinct (take k indices @ take a (drop k indices) @ drop (k + a) indices)"
    using cat assms(7) by simp
  have sets: "set (take k indices) \<union> set (take a (drop k indices)) \<union> set (drop (k + a) indices)
                = int ` {0..<n}"
  proof -
    have "set (take k indices @ take a (drop k indices) @ drop (k + a) indices) = set indices"
      using cat by simp
    then show ?thesis using assms(8) by (simp add: Un_assoc)
  qed
  have l1: "length (take k indices) = k" using k len by simp
  have l2: "length (take a (drop k indices)) = a" using k len by simp
  have l3: "length (drop (k + a) indices) = b" using k len by simp
  have d1: "set (take k indices) \<inter> set (take a (drop k indices)) = {}"
    and d2: "set (take a (drop k indices)) \<inter> set (drop (k + a) indices) = {}"
    and d3: "set (take k indices) \<inter> set (drop (k + a) indices) = {}"
    using dist unfolding distinct_append by auto
  have l4: "k = n - a - b" "k + a + b = n" using k by simp_all
  show ?thesis
    unfolding rs prod.case l1 l2 l3
    using cat d1 d2 d3 sets a b na nb l4 by simp
qed

theorem random_split_partition_witness:
  "(5::nat) < 2 ^ 52 \<and>
   0 < round_double (2 / 5) \<and> round_double (2 / 5) < 1 \<and>
   0 \<le> round_double (1 / 5) \<and> round_double (1 / 5) < 1 \<and>
   round_double (2 / 5) + round_double (1 / 5) < 1 \<and>
   distinct [3, 1, 0, 2, 4 :: int] \<and> set [3, 1, 0, 2, 4 :: int] = int ` {0..<5} \<and>
   random_split [3, 1, 0, 2, 4] 5 (round_double (2 / 5)) (round_double (1 / 5)) =
     ([3, 1], [0, 2], [4]) \<and>
   (case random_split [3, 1, 0, 2, 4] 5 (round_double (2 / 5)) (round_double (1 / 5)) of
      (train, val, test) \<Rightarrow>
        train @ val @ test = [3, 1, 0, 2, 4] \<and>
        int (length val) = py_int (float_mul 5 (round_double (2 / 5))) \<and>
        int (length test) = py_int (float_mul 5 (round_double (1 / 5))) \<and>
        \<bar>int (length val) - \<lfloor>real 5 * round_double (2 / 5)\<rfloor>\<bar> \<le> 1 \<and>
        \<bar>int (length test) - \<lfloor>real 5 * round_double (1 / 5)\<rfloor>\<bar> \<le> 1 \<and>
        length train = 5 - length val - length test \<and>
        length train + length val + length test = 5 \<and>
        set train \<inter> set val = {} \<and> set val \<inter> set test = {} \<and>
        set train \<inter> set test = {} \<and>
        set train \<union> set val \<union> set test = int ` {0..<5})"
proof -
  have s: "set [3, 1, 0, 2, 4 :: int] = int ` {0..<5}"
    by (auto simp: atLeastLessThan_def lessThan_def atLeast_def image_iff)
  have d: "distinct [3, 1, 0, 2, 4 :: int]" by simp
  have n: "(5::nat) < 2 ^ 52" by simp
  have v: "0 < round_double (2 / 5)" "round_double (2 / 5) < 1"
    by (simp_all add: float_eval)
  have t: "0 \<le> round_double (1 / 5)" "round_double (1 / 5) < 1"
    by (simp_all add: float_eval)
  have vt: "round_double (2 / 5) + round_double (1 / 5) < 1"
    by (simp add: float_eval)
  have r: "random_split [3, 1, 0, 2, 4] 5 (round_double (2 / 5)) (round_double (1 / 5)) =
             ([3, 1], [0, 2], [4])"
    by (simp add: random_split_def py_int_def py_slice_def slice_bound_def float_eval)
  from random_split_partition [OF n v t vt d s] s d n v t vt r
  show ?thesis by blast
qed

section \<open>The class list\<close>

text \<open>
  Claim C10. With \<open>remove_background=True\<close>, \<open>get_classes\<close> reads the first element of the
  list of stripped lines without testing for emptiness: on an empty classes file it raises
  \<open>IndexError\<close>; on a file with at least one line it returns the stripped lines, without
  the first one exactly when that one is \<open>__background__\<close>.
\<close>

theorem get_classes_remove_background:
  assumes "read_lines s (dataset_path d @ [''lists'', ''classes_'' @ annotation_type @ ''.txt''])
             = Inr lines"
  shows "get_classes (Some d) annotation_type True s =
           (case map strip lines of
              [] \<Rightarrow> Inl IndexError
            | first # rest \<Rightarrow>
                Inr (if first = ''__background__'' then rest else first # rest))"
  using assms by (cases lines) (simp_all add: get_classes_def)

theorem get_classes_remove_background_witness:
  "read_lines dataset_with_classes
     (dataset_path (PathLike [''d'']) @ [''lists'', ''classes_'' @ ''tag'' @ ''.txt'']) =
     Inr [''__background__'' @ [CHR 0x0A], ''cat'' @ [CHR 0x0A], ''  dog '' @ [CHR 0x0A]] \<and>
   get_classes (Some (PathLike [''d''])) ''tag'' True dataset_with_classes =
     Inr [''cat'', ''dog''] \<and>
   read_lines dataset_with_classes
     (dataset_path (PathLike [''d'']) @ [''lists'', ''classes_'' @ ''polygon'' @ ''.txt'']) =
     Inr [] \<and>
   get_classes (Some (PathLike [''d''])) ''polygon'' True dataset_with_classes = Inl IndexError"
proof -
  have r1: "read_lines dataset_with_classes
              (dataset_path (PathLike [''d'']) @ [''lists'', ''classes_'' @ ''tag'' @ ''.txt'']) =
            Inr [''__background__'' @ [CHR 0x0A], ''cat'' @ [CHR 0x0A], ''  dog '' @ [CHR 0x0A]]"
    by (simp add: read_lines_def dataset_with_classes_def)
  have r2: "read_lines dataset_with_classes
              (dataset_path (PathLike [''d'']) @ [''lists'', ''classes_'' @ ''polygon'' @ ''.txt'']) =
            Inr []"
    by (simp add: read_lines_def dataset_with_classes_def)
  show ?thesis
    using r1 r2 get_classes_remove_background [OF r1] get_classes_remove_background [OF r2]
    by (simp add: strip_def is_space_def)
qed

end
